theory Spec2Isabelle
  imports Complex_Main
begin

section \<open>Python values, errors and text\<close>

text \<open>
  The module \<open>exutil.py\<close> works on the values an openpyxl cell can hold and on the
  arguments a caller passes. The value universe of the model is the one the source's
  own type tests name: \<open>None\<close>, \<open>str\<close>, the numbers \<open>int\<close> and \<open>float\<close>,
  \<open>datetime.date\<close>, \<open>datetime.datetime\<close> (a subclass of \<open>date\<close>),
  \<open>datetime.time\<close>, and an object of any other type that is not a number (bytes, a
  timedelta, ...), which is opaque apart from its type name and its \<open>str()\<close> form.

  A finite float is identified by the decimal number its \<open>repr\<close> prints, the mantissa
  \<open>m\<close> and the exponent \<open>e\<close> of \<open>m * 10^e\<close>: \<open>repr\<close> is one-to-one on floats, so
  two floats are equal exactly when these decimals are. Dates and times are naive (no time
  zone). Strings are lists of characters with code points below 256.
\<close>

datatype error =
    TypeError
  | ValueError
  | IndexError
  | UnboundLocalError
  | CellCoordinatesException
  | Overflow

datatype pyval =
    PNone
  | PStr string
  | PInt int
  | PFloat int int
  | PDate nat nat nat
  | PDateTime nat nat nat nat nat nat nat
  | PTime nat nat nat nat
  | POther string string

datatype pytype = TyNone | TyStr | TyInt | TyFloat | TyDate | TyDateTime | TyTime | TyOther string

fun type_of :: "pyval \<Rightarrow> pytype" where
  "type_of PNone = TyNone"
| "type_of (PStr _) = TyStr"
| "type_of (PInt _) = TyInt"
| "type_of (PFloat _ _) = TyFloat"
| "type_of (PDate _ _ _) = TyDate"
| "type_of (PDateTime _ _ _ _ _ _ _) = TyDateTime"
| "type_of (PTime _ _ _ _) = TyTime"
| "type_of (POther ty _) = TyOther ty"

text \<open>\<open>isinstance(v, t)\<close> for a type \<open>t\<close>: the type itself or a subclass of it.\<close>

definition isinstance :: "pyval \<Rightarrow> pytype \<Rightarrow> bool" where
  "isinstance v t \<longleftrightarrow> type_of v = t \<or> (type_of v = TyDateTime \<and> t = TyDate)"

text \<open>\<open>isinstance(v, numbers.Number)\<close>.\<close>

fun is_Number :: "pyval \<Rightarrow> bool" where
  "is_Number (PInt _) = True"
| "is_Number (PFloat _ _) = True"
| "is_Number _ = False"

subsection \<open>Characters and whitespace\<close>

definition is_digit :: "char \<Rightarrow> bool" where
  "is_digit c \<longleftrightarrow> 48 \<le> (of_char c :: nat) \<and> (of_char c :: nat) \<le> 57"

definition digit_val :: "char \<Rightarrow> nat" where
  "digit_val c = of_char c - 48"

definition digit_char :: "nat \<Rightarrow> char" where
  "digit_char d = char_of (48 + d)"

text \<open>The characters \<open>str.strip()\<close> removes (those with \<open>str.isspace()\<close>) below 256.\<close>

definition py_isspace :: "char \<Rightarrow> bool" where
  "py_isspace c \<longleftrightarrow>
     (let n = (of_char c :: nat)
      in (9 \<le> n \<and> n \<le> 13) \<or> (28 \<le> n \<and> n \<le> 32) \<or> n = 133 \<or> n = 160)"

definition py_strip :: "string \<Rightarrow> string" where
  "py_strip s = rev (dropWhile py_isspace (rev (dropWhile py_isspace s)))"

text \<open>
  The characters \<open>float()\<close> removes at both ends: the C whitespace, and the two
  whitespace characters above 127, which it first turns into spaces. The separators
  \<open>0x1C .. 0x1F\<close> are not among them.
\<close>

definition float_isspace :: "char \<Rightarrow> bool" where
  "float_isspace c \<longleftrightarrow>
     (let n = (of_char c :: nat) in (9 \<le> n \<and> n \<le> 13) \<or> n = 32 \<or> n = 133 \<or> n = 160)"

definition float_strip :: "string \<Rightarrow> string" where
  "float_strip s = rev (dropWhile float_isspace (rev (dropWhile float_isspace s)))"

definition ascii_lower :: "char \<Rightarrow> char" where
  "ascii_lower c =
     (let n = (of_char c :: nat) in if 65 \<le> n \<and> n \<le> 90 then char_of (n + 32) else c)"

definition ascii_upper :: "char \<Rightarrow> char" where
  "ascii_upper c =
     (let n = (of_char c :: nat) in if 97 \<le> n \<and> n \<le> 122 then char_of (n - 32) else c)"

definition endswith :: "string \<Rightarrow> char \<Rightarrow> bool" where
  "endswith s c \<longleftrightarrow> s \<noteq> [] \<and> last s = c"

definition rstrip_char :: "char \<Rightarrow> string \<Rightarrow> string" where
  "rstrip_char c s = rev (dropWhile (\<lambda>x. x = c) (rev s))"

definition remove_char :: "char \<Rightarrow> string \<Rightarrow> string" where
  "remove_char c s = filter (\<lambda>x. x \<noteq> c) s"

subsection \<open>Printing integers\<close>

function nat_str :: "nat \<Rightarrow> string" where
  "nat_str n = (if n < 10 then [digit_char n] else nat_str (n div 10) @ [digit_char (n mod 10)])"
  by pat_completeness auto
termination
  by (relation "measure id") auto

declare nat_str.simps [simp del]

definition int_str :: "int \<Rightarrow> string" where
  "int_str i = (if i < 0 then CHR ''-'' # nat_str (nat (- i)) else nat_str (nat i))"

text \<open>The format \<open>%+d\<close>: the sign is always printed.\<close>

definition signed_str :: "int \<Rightarrow> string" where
  "signed_str i = (if i < 0 then CHR ''-'' else CHR ''+'') # nat_str (nat \<bar>i\<bar>)"

text \<open>The format \<open>%0wd\<close> for a natural number.\<close>

definition zero_pad :: "nat \<Rightarrow> nat \<Rightarrow> string" where
  "zero_pad w n = replicate (w - length (nat_str n)) (CHR ''0'') @ nat_str n"

definition digits_val :: "string \<Rightarrow> nat" where
  "digits_val ds = foldl (\<lambda>n c. 10 * n + digit_val c) 0 ds"

section \<open>The standard library's decimal numbers\<close>

text \<open>
  \<open>count_significant_digits\<close> is built on \<open>float()\<close>, \<open>decimal.Decimal\<close>,
  \<open>Decimal.normalize\<close> and \<open>str\<close> of a Decimal. They are modelled as the standard
  library defines them, under the default context: precision 28, rounding half-even,
  exponents from \<open>-999999\<close> to \<open>999999\<close>, and of the signals only
  \<open>decimal.Overflow\<close> (with InvalidOperation and DivisionByZero, which do not occur
  here) raised as an exception.
\<close>

datatype decimal =
    Finite bool nat int
  | Infinity bool
  | NaN bool

definition split_sign :: "string \<Rightarrow> bool \<times> string" where
  "split_sign s =
     (case s of
        [] \<Rightarrow> (False, [])
      | c # r \<Rightarrow> if c = CHR ''-'' then (True, r) else if c = CHR ''+'' then (False, r) else (False, s))"

text \<open>The exponent part of a numeric string: empty, or \<open>e\<close>/\<open>E\<close>, an optional sign and digits.\<close>

definition parse_exponent :: "string \<Rightarrow> int option" where
  "parse_exponent s =
     (case s of
        [] \<Rightarrow> Some 0
      | c # r \<Rightarrow>
          if ascii_lower c = CHR ''e'' then
            (let (neg, ds) = split_sign r
             in if ds \<noteq> [] \<and> list_all is_digit ds
                then Some (if neg then - int (digits_val ds) else int (digits_val ds))
                else None)
          else None)"

text \<open>
  The grammar \<open>float()\<close> and \<open>Decimal()\<close> share on a stripped string without underscores:
  a sign, then digits with an optional point and fraction (at least one digit in all) and an
  optional exponent, or an infinity, or a NaN. The value is read the way \<open>Decimal\<close> stores
  it: coefficient \<open>int(intpart + fracpart)\<close>, exponent \<open>exp - len(fracpart)\<close>.
\<close>

definition parse_numeric :: "string \<Rightarrow> decimal option" where
  "parse_numeric s =
     (let (neg, r) = split_sign s; l = map ascii_lower r
      in if l = ''inf'' \<or> l = ''infinity'' then Some (Infinity neg)
         else if l = ''nan'' then Some (NaN neg)
         else
           (let ip = takeWhile is_digit r; r1 = dropWhile is_digit r;
                (fp, r2) = (case r1 of
                              [] \<Rightarrow> ([], r1)
                            | c # t \<Rightarrow> if c = CHR ''.''
                                       then (takeWhile is_digit t, dropWhile is_digit t)
                                       else ([], r1))
            in if ip = [] \<and> fp = [] then None
               else (case parse_exponent r2 of
                       None \<Rightarrow> None
                     | Some ex \<Rightarrow> Some (Finite neg (digits_val (ip @ fp)) (ex - int (length fp))))))"

text \<open>
  \<open>float()\<close> allows an underscore only between two digits; the scan keeps the previous
  character, as the interpreter's does, and gives the string without its underscores.
\<close>

fun float_underscores :: "char option \<Rightarrow> string \<Rightarrow> string option" where
  "float_underscores prev [] = (if prev = Some (CHR ''_'') then None else Some [])"
| "float_underscores prev (c # cs) =
     (if c = CHR ''_'' then
        (case prev of
           None \<Rightarrow> None
         | Some p \<Rightarrow> if is_digit p then float_underscores (Some c) cs else None)
      else if prev = Some (CHR ''_'') \<and> \<not> is_digit c then None
      else map_option ((#) c) (float_underscores (Some c) cs))"

text \<open>\<open>float(s)\<close> returns (rather than raising ValueError).\<close>

definition float_accepts :: "string \<Rightarrow> bool" where
  "float_accepts s =
     (case float_underscores None (float_strip s) of
        None \<Rightarrow> False
      | Some t \<Rightarrow> parse_numeric t \<noteq> None)"

text \<open>\<open>Decimal(s)\<close>, on a string \<open>float()\<close> accepted: strip, drop the underscores, parse.\<close>

definition Decimal :: "string \<Rightarrow> decimal option" where
  "Decimal s = parse_numeric (remove_char (CHR ''_'') (py_strip s))"

function strip_zeros :: "nat \<Rightarrow> int \<Rightarrow> nat \<times> int" where
  "strip_zeros c e = (if c \<noteq> 0 \<and> c mod 10 = 0 then strip_zeros (c div 10) (e + 1) else (c, e))"
  by pat_completeness auto
termination
  by (relation "measure fst") auto

declare strip_zeros.simps [simp del]

text \<open>
  Rounding a coefficient to the context, half to even: the exponent is raised to leave at
  most 28 digits, and no lower than \<open>Etiny = -1000026\<close>.
\<close>

definition round_to_prec :: "nat \<Rightarrow> int \<Rightarrow> nat \<times> int" where
  "round_to_prec c e =
     (let nd = length (nat_str c); exp_min = max (int nd + e - 28) (- 1000026)
      in if e \<ge> exp_min then (c, e)
         else
           (let k = nat (exp_min - e); q = c div 10 ^ k; r = c mod 10 ^ k;
                half = 5 * 10 ^ (k - 1)
            in (if r > half \<or> (r = half \<and> odd q) then q + 1 else q, exp_min)))"

text \<open>
  \<open>Decimal.normalize()\<close>: round to the context, raising \<open>decimal.Overflow\<close> when the
  first digit of the result lies above \<open>10^999999\<close>; turn any zero into \<open>0e0\<close>; strip
  the trailing zeros of the coefficient. Infinities and NaNs are returned as they are.
\<close>

fun normalize :: "decimal \<Rightarrow> error + decimal" where
  "normalize (Finite neg c e) =
     (let (c1, e1) = round_to_prec c e
      in if c1 = 0 then Inr (Finite neg 0 0)
         else if int (length (nat_str c1)) + e1 - 1 > 999999 then Inl Overflow
         else (let (c2, e2) = strip_zeros c1 e1 in Inr (Finite neg c2 e2)))"
| "normalize d = Inr d"

text \<open>\<open>str\<close> of a Decimal: plain notation when the exponent is at most 0 and the number
  has more than \<open>-6\<close> digits left of the point, scientific notation otherwise.\<close>

fun decimal_str :: "decimal \<Rightarrow> string" where
  "decimal_str (Finite neg c e) =
     (let ds = nat_str c; n = int (length ds); leftdigits = e + n;
          dotplace = (if e \<le> 0 \<and> leftdigits > - 6 then leftdigits else 1);
          body =
            (if dotplace \<le> 0 then ''0.'' @ replicate (nat (- dotplace)) (CHR ''0'') @ ds
             else if dotplace \<ge> n then ds @ replicate (nat (dotplace - n)) (CHR ''0'')
             else take (nat dotplace) ds @ ''.'' @ drop (nat dotplace) ds);
          ex = (if leftdigits = dotplace then [] else CHR ''E'' # signed_str (leftdigits - dotplace))
      in (if neg then ''-'' else []) @ body @ ex)"
| "decimal_str (Infinity neg) = (if neg then ''-'' else []) @ ''Infinity''"
| "decimal_str (NaN neg) = (if neg then ''-'' else []) @ ''NaN''"

section \<open>Text of a value\<close>

text \<open>
  \<open>repr\<close> of a finite float \<open>m * 10^e\<close>: the shortest digits, in plain notation with
  at least one digit after the point when the decimal point position is in \<open>-3 .. 16\<close>,
  in exponent notation (two exponent digits at least) otherwise.
\<close>

definition float_str :: "int \<Rightarrow> int \<Rightarrow> string" where
  "float_str m e =
     (if m = 0 then ''0.0''
      else
        (let (c, e1) = strip_zeros (nat \<bar>m\<bar>) e; ds = nat_str c; n = int (length ds);
             decpt = n + e1;
             body =
               (if decpt \<le> - 4 \<or> decpt > 16 then
                  take 1 ds @ (if n > 1 then CHR ''.'' # drop 1 ds else [])
                  @ ''e'' @ [if decpt - 1 < 0 then CHR ''-'' else CHR ''+'']
                  @ zero_pad 2 (nat \<bar>decpt - 1\<bar>)
                else if decpt \<le> 0 then ''0.'' @ replicate (nat (- decpt)) (CHR ''0'') @ ds
                else if decpt \<ge> n then ds @ replicate (nat (decpt - n)) (CHR ''0'') @ ''.0''
                else take (nat decpt) ds @ ''.'' @ drop (nat decpt) ds)
         in (if m < 0 then ''-'' else []) @ body))"

definition time_str :: "nat \<Rightarrow> nat \<Rightarrow> nat \<Rightarrow> nat \<Rightarrow> string" where
  "time_str h mi s us =
     zero_pad 2 h @ '':'' @ zero_pad 2 mi @ '':'' @ zero_pad 2 s
     @ (if us = 0 then [] else CHR ''.'' # zero_pad 6 us)"

definition date_str :: "nat \<Rightarrow> nat \<Rightarrow> nat \<Rightarrow> string" where
  "date_str y m d = zero_pad 4 y @ ''-'' @ zero_pad 2 m @ ''-'' @ zero_pad 2 d"

text \<open>\<open>str(v)\<close>.\<close>

fun py_str :: "pyval \<Rightarrow> string" where
  "py_str PNone = ''None''"
| "py_str (PStr s) = s"
| "py_str (PInt i) = int_str i"
| "py_str (PFloat m e) = float_str m e"
| "py_str (PDate y m d) = date_str y m d"
| "py_str (PDateTime y m d h mi s us) = date_str y m d @ '' '' @ time_str h mi s us"
| "py_str (PTime h mi s us) = time_str h mi s us"
| "py_str (POther _ s) = s"

text \<open>
  \<open>str\<close> of an int of more than 4300 digits raises ValueError, the interpreter's
  default limit on the conversion; \<open>py_str\<close> gives the text of the others.
\<close>

definition str_raises :: "pyval \<Rightarrow> bool" where
  "str_raises v =
     (case v of PInt i \<Rightarrow> 4300 < length (nat_str (nat \<bar>i\<bar>)) | _ \<Rightarrow> False)"

section \<open>count_significant_digits\<close>

text \<open>
  The argument is a number or a string; anything that is not a string is converted with
  \<open>str\<close>, which can raise. \<open>float(number_str)\<close> raises ValueError on a string that is
  not numeric,
  and \<open>normalize\<close> can raise \<open>decimal.Overflow\<close>. The branch that restores trailing
  zeros is taken when the input has a point and ends in \<open>0\<close> while the normalised text
  does not end in \<open>0\<close>.
\<close>

definition count_significant_digits :: "pyval \<Rightarrow> error + nat" where
  "count_significant_digits number =
     (if str_raises number then Inl ValueError
      else
        (let number_str = (case number of PStr s \<Rightarrow> s | _ \<Rightarrow> py_str number)
         in if \<not> float_accepts number_str then Inl ValueError
            else
              (case Decimal number_str of
                 None \<Rightarrow> Inl ValueError
               | Some d \<Rightarrow>
                   (case normalize d of
                      Inl e \<Rightarrow> Inl e
                    | Inr nd \<Rightarrow>
                        (let normalized_str = decimal_str nd
                         in if CHR ''.'' \<in> set number_str \<and> \<not> endswith normalized_str (CHR ''0'')
                               \<and> endswith number_str (CHR ''0'')
                            then
                              (let trailing_zeros =
                                     length number_str - length (rstrip_char (CHR ''0'') number_str)
                               in Inr (length (remove_char (CHR ''.'') normalized_str)
                                       + trailing_zeros))
                            else Inr (length (remove_char (CHR ''-'')
                                                (remove_char (CHR ''.'') normalized_str))))))))"

section \<open>is_similar\<close>

text \<open>
  \<open>difflib.SequenceMatcher(None, a, b).ratio()\<close> belongs to the standard library; the
  functions that use it take it as the parameter \<open>ratio\<close>. The argument \<open>test\<close> is a
  single value, a list or a tuple.
\<close>

datatype pyarg = Single pyval | PyList "pyval list" | PyTuple "pyval list"

datatype similar_result =
    SimBool bool
  | SimPair string rat
  | SimNonePair
  | SimArrays "string list" "rat list"

text \<open>The loop of case 2: the elements that reach the threshold and their scores.\<close>

fun valid_strs :: "(string \<Rightarrow> string \<Rightarrow> rat) \<Rightarrow> string \<Rightarrow> rat \<Rightarrow> string list
    \<Rightarrow> string list \<times> rat list \<Rightarrow> string list \<times> rat list" where
  "valid_strs ratio target threshold [] acc = acc"
| "valid_strs ratio target threshold (s_i # rest) (valid_str_list, valid_str_score) =
     (let similarity = ratio target s_i
      in if similarity \<ge> threshold
         then valid_strs ratio target threshold rest
                (valid_str_list @ [s_i], valid_str_score @ [similarity])
         else valid_strs ratio target threshold rest (valid_str_list, valid_str_score))"

text \<open>
  A target that is not a string is converted with \<open>str\<close>, and a failure of the
  conversion is raised again as TypeError.
  The first test converts a list to stripped strings, strips a string, prints and strips a
  number, and raises TypeError on anything else: a tuple is among the rest. After it
  \<open>test\<close> is a string (case 1) or a list (cases 2 and 3), so the closing
  \<open>raise RuntimeError\<close> is never reached.
\<close>

definition is_similar :: "(string \<Rightarrow> string \<Rightarrow> rat) \<Rightarrow> pyval \<Rightarrow> pyarg \<Rightarrow> rat \<Rightarrow> bool
    \<Rightarrow> error + similar_result" where
  "is_similar ratio target0 test0 threshold return_similarrity_score =
     (if str_raises target0 then Inl TypeError
      else
        (let target = py_strip (py_str target0);
             case1 = (\<lambda>test.
               let similarity = ratio target test
               in if return_similarrity_score
                  then Inr (if similarity \<ge> threshold then SimPair test similarity else SimNonePair)
                  else Inr (SimBool (similarity \<ge> threshold)))
         in case test0 of
              PyList xs \<Rightarrow>
                if list_ex str_raises xs then Inl ValueError
                else
                  (let test = map (\<lambda>ti. py_strip (py_str ti)) xs
                   in if return_similarrity_score then
                        (let (valid_str_list, valid_str_score) =
                               valid_strs ratio target threshold test ([], [])
                         in if valid_str_list \<noteq> []
                            then Inr (SimArrays valid_str_list valid_str_score)
                            else Inr SimNonePair)
                      else Inr (SimBool (list_ex (\<lambda>s. ratio target s \<ge> threshold) test)))
            | Single (PStr s) \<Rightarrow> case1 (py_strip s)
            | Single v \<Rightarrow>
                if is_Number v
                then (if str_raises v then Inl ValueError else case1 (py_strip (py_str v)))
                else Inl TypeError
            | PyTuple xs \<Rightarrow> Inl TypeError))"

section \<open>search_excl_val\<close>

text \<open>
  A worksheet is read through \<open>iter_rows\<close>: rows of cells, each cell with its
  \<open>coordinate\<close> and its \<open>value\<close>. The two accumulator dicts have the keys
  \<open>Coordinate\<close> and \<open>Value\<close>. The scan state also logs, in order, the coordinate of
  every cell the loop body has been entered with, so that what the search has read is part
  of its result.
\<close>

record cell =
  coordinate :: string
  cell_value :: pyval

type_synonym worksheet = "cell list list"

record bucket =
  Coordinate :: "string list"
  Value :: "pyval list"

record scan =
  equal_targets :: bucket
  similar_target_hits :: bucket
  reads :: "string list"

datatype flow = Continue | Return string pyval | Raise error

datatype search_result =
    Hit string pyval
  | Dict bucket
  | CoordList "string list"
  | NonePair
  | NoneResult

text \<open>
  The library functions the search uses: the similarity ratio, and \<open>numpy.round\<close>.
  \<open>numpy.round\<close> returns a value for a float and for an int that fits 64 bits, signed
  or unsigned; any other int becomes an object array and the call raises TypeError. The
  value it returns is the parameter \<open>around\<close>, on the value of the number.
\<close>

record lib =
  ratio :: "string \<Rightarrow> string \<Rightarrow> rat"
  around :: "rat \<Rightarrow> nat \<Rightarrow> rat"

definition np_round_raises :: "pyval \<Rightarrow> bool" where
  "np_round_raises v =
     (case v of
        PInt i \<Rightarrow> i < - 9223372036854775808 \<or> 18446744073709551616 \<le> i
      | _ \<Rightarrow> False)"

definition num_val :: "pyval \<Rightarrow> rat" where
  "num_val v =
     (case v of
        PInt i \<Rightarrow> of_int i
      | PFloat m e \<Rightarrow> if e \<ge> 0 then of_int m * 10 ^ nat e else of_int m / 10 ^ nat (- e)
      | _ \<Rightarrow> 0)"

definition add_equal :: "cell \<Rightarrow> scan \<Rightarrow> scan" where
  "add_equal c s =
     s\<lparr>equal_targets :=
         \<lparr>Coordinate = Coordinate (equal_targets s) @ [coordinate c],
          Value = Value (equal_targets s) @ [cell_value c]\<rparr>\<rparr>"

definition add_similar :: "cell \<Rightarrow> scan \<Rightarrow> scan" where
  "add_similar c s =
     s\<lparr>similar_target_hits :=
         \<lparr>Coordinate = Coordinate (similar_target_hits s) @ [coordinate c],
          Value = Value (similar_target_hits s) @ [cell_value c]\<rparr>\<rparr>"

text \<open>The two inner loops, \<open>for row_ii in sheet.iter_rows(): for cell_iii in row_ii\<close>,
  around a loop body that continues, returns from the function, or raises.\<close>

fun for_cells :: "(cell \<Rightarrow> scan \<Rightarrow> flow \<times> scan) \<Rightarrow> cell list \<Rightarrow> scan \<Rightarrow> flow \<times> scan" where
  "for_cells body [] s = (Continue, s)"
| "for_cells body (c # cs) s =
     (case body c (s\<lparr>reads := reads s @ [coordinate c]\<rparr>) of
        (Continue, s') \<Rightarrow> for_cells body cs s'
      | r \<Rightarrow> r)"

fun for_rows :: "(cell \<Rightarrow> scan \<Rightarrow> flow \<times> scan) \<Rightarrow> worksheet \<Rightarrow> scan \<Rightarrow> flow \<times> scan" where
  "for_rows body [] s = (Continue, s)"
| "for_rows body (row # rows) s =
     (case for_cells body row s of
        (Continue, s') \<Rightarrow> for_rows body rows s'
      | r \<Rightarrow> r)"

text \<open>The outer loop, \<open>for search_val_i in search_targets\<close>.\<close>

fun for_targets :: "(pyval \<Rightarrow> scan \<Rightarrow> flow \<times> scan) \<Rightarrow> pyval list \<Rightarrow> scan \<Rightarrow> flow \<times> scan" where
  "for_targets per_target [] s = (Continue, s)"
| "for_targets per_target (t # ts) s =
     (case per_target t s of
        (Continue, s') \<Rightarrow> for_targets per_target ts s'
      | r \<Rightarrow> r)"

text \<open>Case 1, a string target: the body of the cell loop.\<close>

definition str_body :: "lib \<Rightarrow> rat \<Rightarrow> bool \<Rightarrow> pyval \<Rightarrow> cell \<Rightarrow> scan \<Rightarrow> flow \<times> scan" where
  "str_body L threshold return_first_hit search_val_i c s =
     (let v = cell_value c
      in if v = PNone \<or> is_Number v \<or> isinstance v TyTime \<or> isinstance v TyDateTime
         then (Continue, s)
         else if v = search_val_i \<and> return_first_hit then (Return (coordinate c) v, s)
         else
           (let s1 = (if v = search_val_i then add_equal c s else s)
            in case is_similar (ratio L) search_val_i (Single (PStr (py_str v))) threshold False of
                 Inl e \<Rightarrow> (Raise e, s1)
               | Inr r \<Rightarrow> (Continue, if r = SimBool True then add_similar c s1 else s1)))"

text \<open>
  Case 2, a number target: the body of the cell loop, and the target's loop body, which
  first converts the target to text and counts the significant digits of the text. The
  comparison rounds the cell value first and the target second; either call can raise.
\<close>

definition num_body :: "lib \<Rightarrow> bool \<Rightarrow> nat \<Rightarrow> pyval \<Rightarrow> cell \<Rightarrow> scan \<Rightarrow> flow \<times> scan" where
  "num_body L return_first_hit round_of_number search_val_i c s =
     (let v = cell_value c
      in if \<not> is_Number v then (Continue, s)
         else if np_round_raises v then (Raise TypeError, s)
         else if np_round_raises search_val_i then (Raise TypeError, s)
         else if around L (num_val v) round_of_number
                 = around L (num_val search_val_i) round_of_number
         then (if return_first_hit then (Return (coordinate c) v, s)
               else (Continue, add_equal c s))
         else (Continue, add_similar c s))"

definition num_target :: "lib \<Rightarrow> bool \<Rightarrow> worksheet \<Rightarrow> pyval \<Rightarrow> scan \<Rightarrow> flow \<times> scan" where
  "num_target L return_first_hit sheet search_val_i s =
     (if str_raises search_val_i then (Raise ValueError, s)
      else
        (case count_significant_digits (PStr (py_str search_val_i)) of
           Inl e \<Rightarrow> (Raise e, s)
         | Inr round_of_number \<Rightarrow>
             for_rows (num_body L return_first_hit round_of_number search_val_i) sheet s))"

text \<open>Case 3, a date or datetime target.\<close>

definition date_body :: "bool \<Rightarrow> pyval \<Rightarrow> cell \<Rightarrow> scan \<Rightarrow> flow \<times> scan" where
  "date_body return_first_hit search_val_i c s =
     (let v = cell_value c
      in if \<not> isinstance v TyDateTime \<and> \<not> isinstance v TyDate then (Continue, s)
         else if v = search_val_i
         then (if return_first_hit then (Return (coordinate c) v, s)
               else (Continue, add_equal c s))
         else (Continue, add_similar c s))"

text \<open>Case 4, a time-of-day target.\<close>

definition time_body :: "bool \<Rightarrow> pyval \<Rightarrow> cell \<Rightarrow> scan \<Rightarrow> flow \<times> scan" where
  "time_body return_first_hit search_val_i c s =
     (let v = cell_value c
      in if \<not> isinstance v TyTime then (Continue, s)
         else if v = search_val_i
         then (if return_first_hit then (Return (coordinate c) v, s)
               else (Continue, add_equal c s))
         else (Continue, add_similar c s))"

definition all_vals :: "scan \<Rightarrow> bucket" where
  "all_vals s =
     \<lparr>Coordinate = Coordinate (equal_targets s) @ Coordinate (similar_target_hits s),
      Value = Value (equal_targets s) @ Value (similar_target_hits s)\<rparr>"

definition scan0 :: scan where
  "scan0 = \<lparr>equal_targets = \<lparr>Coordinate = [], Value = []\<rparr>,
            similar_target_hits = \<lparr>Coordinate = [], Value = []\<rparr>,
            reads = []\<rparr>"

text \<open>What a finished target loop hands back: the early return, the error, or the value
  the branch's closing statements choose from the state.\<close>

definition finish :: "(scan \<Rightarrow> search_result) \<Rightarrow> flow \<times> scan \<Rightarrow> (error + search_result) \<times> string list" where
  "finish shape r =
     (case r of
        (Continue, s) \<Rightarrow> (Inr (shape s), reads s)
      | (Return co v, s) \<Rightarrow> (Inr (Hit co v), reads s)
      | (Raise e, s) \<Rightarrow> (Inl e, reads s))"

text \<open>
  The function: the result or the error, and the log of the cells read. The target list is
  indexed at 0 (IndexError when empty) and every target must be an instance of the first
  target's type (TypeError otherwise), both before the scan.
\<close>

definition search_excl_val :: "lib \<Rightarrow> worksheet \<Rightarrow> pyval list \<Rightarrow> rat \<Rightarrow> bool \<Rightarrow> bool
    \<Rightarrow> (error + search_result) \<times> string list" where
  "search_excl_val L sheet search_targets threshold return_first_hit return_all_vals =
     (case search_targets of
        [] \<Rightarrow> (Inl IndexError, [])
      | t0 # _ \<Rightarrow>
          (let search_type = type_of t0
           in if \<not> list_all (\<lambda>target_i. isinstance target_i search_type) search_targets
              then (Inl TypeError, [])
              else if search_type = TyStr then
                finish (\<lambda>s. if return_all_vals then Dict (all_vals s)
                             else if Coordinate (equal_targets s) \<noteq> [] then Dict (equal_targets s)
                             else NonePair)
                  (for_targets
                     (\<lambda>search_val_i. for_rows (str_body L threshold return_first_hit search_val_i) sheet)
                     search_targets scan0)
              else if is_Number t0 then
                finish (\<lambda>s. if return_all_vals then Dict (all_vals s)
                             else if Value (equal_targets s) \<noteq> []
                             then CoordList (Coordinate (equal_targets s))
                             else NonePair)
                  (for_targets (num_target L return_first_hit sheet) search_targets scan0)
              else if search_type = TyDate \<or> search_type = TyDateTime then
                finish (\<lambda>s. if return_all_vals then Dict (all_vals s)
                             else if Value (equal_targets s) \<noteq> [] then Dict (equal_targets s)
                             else NonePair)
                  (for_targets
                     (\<lambda>search_val_i. for_rows (date_body return_first_hit search_val_i) sheet)
                     search_targets scan0)
              else if search_type = TyTime then
                finish (\<lambda>s. if Value (equal_targets s) \<noteq> [] \<and> \<not> return_all_vals
                             then Dict (equal_targets s)
                             else if return_all_vals then Dict (all_vals s)
                             else NoneResult)
                  (for_targets
                     (\<lambda>search_val_i. for_rows (time_body return_first_hit search_val_i) sheet)
                     search_targets scan0)
              else (Inl ValueError, [])))"

section \<open>exc_coord_to_rc\<close>

text \<open>
  openpyxl's \<open>coordinate_from_string\<close> matches \<open>^[$]?([A-Za-z]{1,3})[$]?(\d+)$\<close>
  (the closing \<open>$\<close> also matches before one final newline) and refuses row 0;
  \<open>column_index_from_string\<close> reads the upper-cased letters as a number in base 26
  with the digits \<open>A = 1 .. Z = 26\<close>.
\<close>

definition is_alpha :: "char \<Rightarrow> bool" where
  "is_alpha c \<longleftrightarrow>
     (let n = (of_char c :: nat) in (65 \<le> n \<and> n \<le> 90) \<or> (97 \<le> n \<and> n \<le> 122))"

definition drop_dollar :: "string \<Rightarrow> string" where
  "drop_dollar s = (case s of [] \<Rightarrow> [] | c # r \<Rightarrow> if c = CHR ''$'' then r else s)"

definition coordinate_from_string :: "string \<Rightarrow> error + (string \<times> nat)" where
  "coordinate_from_string coord_string =
     (let s0 = (if coord_string \<noteq> [] \<and> last coord_string = CHR 0x0A
                then butlast coord_string else coord_string);
          s1 = drop_dollar s0;
          column = takeWhile is_alpha s1;
          row = drop_dollar (dropWhile is_alpha s1)
      in if 1 \<le> length column \<and> length column \<le> 3 \<and> row \<noteq> [] \<and> list_all is_digit row
         then (if digits_val row = 0 then Inl CellCoordinatesException
               else Inr (column, digits_val row))
         else Inl CellCoordinatesException)"

definition column_index_from_string :: "string \<Rightarrow> error + nat" where
  "column_index_from_string str_col =
     (if 1 \<le> length str_col \<and> length str_col \<le> 3 \<and> list_all is_alpha str_col
      then Inr (foldl (\<lambda>n c. 26 * n + (of_char (ascii_upper c) - 64)) 0 str_col)
      else Inl ValueError)"

text \<open>The function itself, on a string argument: (row, column).\<close>

definition exc_coord_to_rc :: "string \<Rightarrow> error + (int \<times> int)" where
  "exc_coord_to_rc cell_Coord =
     (if cell_Coord = [] then Inl ValueError
      else
        (case coordinate_from_string cell_Coord of
           Inl e \<Rightarrow> Inl e
         | Inr (col_letter, row) \<Rightarrow>
             (case column_index_from_string col_letter of
                Inl e \<Rightarrow> Inl e
              | Inr col \<Rightarrow> Inr (int row, int col))))"

section \<open>get_excl_sheet_vals\<close>

text \<open>
  Here the worksheet is read through \<open>sheet.cell(row, column).value\<close>: a value for every
  row and column from 1 on (\<open>None\<close> where nothing was written), ValueError below 1.
  A corner argument is a string, a tuple, or something else. The numpy result is a
  one-dimensional or a two-dimensional array, given by the values handed to
  \<open>numpy.array\<close>; the conversion of the elements to the array's common dtype is not
  part of the model.
\<close>

type_synonym grid = "nat \<Rightarrow> nat \<Rightarrow> pyval"

datatype corner = CornerStr string | CornerTuple "pyval list" | CornerOther

datatype ndarray = Array1 "pyval list" | Array2 "pyval list list"

definition sheet_cell :: "grid \<Rightarrow> int \<Rightarrow> int \<Rightarrow> error + pyval" where
  "sheet_cell g r c = (if r < 1 \<or> c < 1 then Inl ValueError else Inr (g (nat r) (nat c)))"

fun collect :: "(error + 'a) list \<Rightarrow> error + 'a list" where
  "collect [] = Inr []"
| "collect (x # xs) =
     (case x of
        Inl e \<Rightarrow> Inl e
      | Inr v \<Rightarrow> (case collect xs of Inl e \<Rightarrow> Inl e | Inr vs \<Rightarrow> Inr (v # vs)))"

text \<open>
  One corner: what it binds the row and column variables to. A string is decoded; a tuple
  binds them only when its first two elements are ints (and then must have two elements
  to unpack), and otherwise leaves them unbound, \<open>None\<close> here; anything else raises
  TypeError.
\<close>

definition bind_corner :: "corner \<Rightarrow> error + (int \<times> int) option" where
  "bind_corner co =
     (case co of
        CornerStr s \<Rightarrow> (case exc_coord_to_rc s of Inl e \<Rightarrow> Inl e | Inr rc \<Rightarrow> Inr (Some rc))
      | CornerTuple xs \<Rightarrow>
          (case xs of
             [] \<Rightarrow> Inl IndexError
           | x # rest \<Rightarrow>
               (case x of
                  PInt r \<Rightarrow>
                    (case rest of
                       [] \<Rightarrow> Inl IndexError
                     | y # others \<Rightarrow>
                         (case y of
                            PInt c \<Rightarrow> if others = [] then Inr (Some (r, c)) else Inl ValueError
                          | _ \<Rightarrow> Inr None))
                | _ \<Rightarrow> Inr None))
      | CornerOther \<Rightarrow> Inl TypeError)"

definition get_excl_sheet_vals :: "grid \<Rightarrow> corner \<Rightarrow> corner \<Rightarrow> error + ndarray" where
  "get_excl_sheet_vals sheet start_Cord end_Cord =
     (case bind_corner start_Cord of
        Inl e \<Rightarrow> Inl e
      | Inr start_rc \<Rightarrow>
          (case bind_corner end_Cord of
             Inl e \<Rightarrow> Inl e
           | Inr end_rc \<Rightarrow>
               (case (start_rc, end_rc) of
                  (Some (row_start0, col_start0), Some (row_end0, col_end0)) \<Rightarrow>
                    (let (row_start, row_end) =
                           (if row_start0 > row_end0 then (row_end0, row_start0)
                            else (row_start0, row_end0));
                         (col_start, col_end) =
                           (if col_start0 > col_end0 then (col_end0, col_start0)
                            else (col_start0, col_end0))
                     in case collect
                               (map (\<lambda>r_i. collect (map (\<lambda>c_ii. sheet_cell sheet r_i c_ii)
                                                         [col_start..col_end]))
                                    [row_start..row_end - 1]) of
                          Inl e \<Rightarrow> Inl e
                        | Inr values_extracted \<Rightarrow>
                            if row_start = row_end \<or> col_start = col_end
                            then Inr (Array1 (concat values_extracted))
                            else Inr (Array2 values_extracted))
                | _ \<Rightarrow> Inl UnboundLocalError)))"

section \<open>The library functions, concretely\<close>

subsection \<open>difflib's ratio\<close>

text \<open>
  \<open>SequenceMatcher(None, a, b)\<close> has no junk function; with the default
  \<open>autojunk\<close>, when \<open>b\<close> has 200 elements or more, the elements that occur more than
  \<open>len(b) // 100 + 1\<close> times are "popular" and cannot start or carry a match, though a
  match is extended over them. \<open>find_longest_match\<close> scans the end positions \<open>i\<close>,
  \<open>j\<close> in increasing order and keeps the first longest run; here it works on the two
  slices \<open>a[alo:ahi]\<close> and \<open>b[blo:bhi]\<close>, with positions relative to them.
\<close>

definition popular :: "string \<Rightarrow> char set" where
  "popular b =
     (if length b \<ge> 200 then set (filter (\<lambda>c. count_list b c > length b div 100 + 1) b)
      else {})"

text \<open>The length of the common run of non-popular elements that ends at \<open>a[i]\<close>, \<open>b[j]\<close>.\<close>

fun run_len :: "char set \<Rightarrow> string \<Rightarrow> string \<Rightarrow> nat \<Rightarrow> nat \<Rightarrow> nat" where
  "run_len pop a b 0 j = (if a ! 0 = b ! j \<and> a ! 0 \<notin> pop then 1 else 0)"
| "run_len pop a b (Suc i) j =
     (if a ! Suc i = b ! j \<and> a ! Suc i \<notin> pop
      then Suc (case j of 0 \<Rightarrow> 0 | Suc j' \<Rightarrow> run_len pop a b i j')
      else 0)"

definition best_run :: "char set \<Rightarrow> string \<Rightarrow> string \<Rightarrow> nat \<times> nat \<times> nat" where
  "best_run pop a b =
     fold (\<lambda>(i, j) (besti, bestj, bestsize).
             let k = run_len pop a b i j
             in if k > bestsize then (Suc i - k, Suc j - k, k) else (besti, bestj, bestsize))
          (List.product [0..<length a] [0..<length b]) (0, 0, 0)"

fun extend_left :: "string \<Rightarrow> string \<Rightarrow> nat \<Rightarrow> nat \<Rightarrow> nat \<Rightarrow> nat \<times> nat \<times> nat" where
  "extend_left a b 0 bestj bestsize = (0, bestj, bestsize)"
| "extend_left a b (Suc i) bestj bestsize =
     (case bestj of
        0 \<Rightarrow> (Suc i, bestj, bestsize)
      | Suc j \<Rightarrow> if a ! i = b ! j then extend_left a b i j (Suc bestsize)
                 else (Suc i, bestj, bestsize))"

function extend_right :: "string \<Rightarrow> string \<Rightarrow> nat \<Rightarrow> nat \<Rightarrow> nat \<Rightarrow> nat" where
  "extend_right a b besti bestj bestsize =
     (if besti + bestsize < length a \<and> bestj + bestsize < length b
         \<and> a ! (besti + bestsize) = b ! (bestj + bestsize)
      then extend_right a b besti bestj (Suc bestsize)
      else bestsize)"
  by pat_completeness auto
termination
  by (relation "measure (\<lambda>(a, b, besti, bestj, bestsize). length a - (besti + bestsize))") auto

declare extend_right.simps [simp del]

definition find_longest_match :: "char set \<Rightarrow> string \<Rightarrow> string \<Rightarrow> nat \<times> nat \<times> nat" where
  "find_longest_match pop a b =
     (let (besti0, bestj0, bestsize0) = best_run pop a b;
          (besti, bestj, bestsize1) = extend_left a b besti0 bestj0 bestsize0
      in (besti, bestj, extend_right a b besti bestj bestsize1))"

text \<open>A match lies inside both slices; the recursion over the matching blocks rests on it.\<close>

lemma run_len_le: "run_len pop a b i j \<le> Suc i \<and> run_len pop a b i j \<le> Suc j"
  by (induction i arbitrary: j) (auto split: nat.splits)

lemma fold_invariant:
  assumes "P s0" and "\<And>x s. x \<in> set xs \<Longrightarrow> P s \<Longrightarrow> P (f x s)"
  shows "P (fold f xs s0)"
  using assms by (induction xs arbitrary: s0) auto

lemma best_run_bound:
  "best_run pop a b = (i, j, k) \<Longrightarrow> i + k \<le> length a \<and> j + k \<le> length b"
proof -
  have "(\<lambda>(i, j, k). i + k \<le> length a \<and> j + k \<le> length b) (best_run pop a b)"
    unfolding best_run_def
  proof (rule fold_invariant, goal_cases)
    case 1
    show ?case by simp
  next
    case (2 x s)
    obtain i j where x: "x = (i, j)" by (cases x)
    obtain bi bj bs where s: "s = (bi, bj, bs)" by (cases s)
    from 2 x have ij: "i < length a" "j < length b" by auto
    have "run_len pop a b i j \<le> Suc i" "run_len pop a b i j \<le> Suc j"
      using run_len_le by auto
    with 2 ij show ?case by (auto simp: x s Let_def)
  qed
  then show "best_run pop a b = (i, j, k) \<Longrightarrow> i + k \<le> length a \<and> j + k \<le> length b"
    by simp
qed

lemma extend_left_bound:
  "extend_left a b i j k = (i', j', k') \<Longrightarrow> i' + k' = i + k \<and> j' + k' = j + k"
  by (induction a b i j k rule: extend_left.induct) (auto split: nat.splits if_splits)

lemma extend_right_bound:
  "i + k \<le> length a \<Longrightarrow> j + k \<le> length b \<Longrightarrow>
   i + extend_right a b i j k \<le> length a \<and> j + extend_right a b i j k \<le> length b"
proof (induction a b i j k rule: extend_right.induct)
  case (1 a b i j k)
  show ?case
    using 1 by (subst (1 2) extend_right.simps) auto
qed

lemma find_longest_match_bound:
  "find_longest_match pop a b = (i, j, k) \<Longrightarrow> i + k \<le> length a \<and> j + k \<le> length b"
  unfolding find_longest_match_def
  by (auto split: prod.splits dest!: best_run_bound extend_left_bound
      intro: extend_right_bound[THEN conjunct1] extend_right_bound[THEN conjunct2])

text \<open>
  \<open>get_matching_blocks\<close> takes the longest match of a pair of slices and goes on with the
  slices left of it and right of it; \<open>ratio\<close> needs only the sum of the block sizes,
  \<open>2.0 * matches / (len(a) + len(b))\<close>, and is 1.0 for two empty strings.
\<close>

function match_count :: "char set \<Rightarrow> string \<Rightarrow> string \<Rightarrow> nat" where
  "match_count pop a b =
     (case find_longest_match pop a b of
        (i, j, k) \<Rightarrow>
          if k = 0 then 0
          else k
            + (if 0 < i \<and> 0 < j then match_count pop (take i a) (take j b) else 0)
            + (if i + k < length a \<and> j + k < length b
               then match_count pop (drop (i + k) a) (drop (j + k) b) else 0))"
  by pat_completeness auto
termination
proof (relation "measure (\<lambda>(pop, a, b). length a)", goal_cases)
  case 1
  show ?case by simp
next
  case 2
  then show ?case by (auto dest: find_longest_match_bound[OF sym])
next
  case 3
  then show ?case by auto
qed

declare match_count.simps [simp del]

definition difflib_ratio :: "string \<Rightarrow> string \<Rightarrow> rat" where
  "difflib_ratio a b =
     (if length a + length b = 0 then 1
      else 2 * of_nat (match_count (popular b) a b) / of_nat (length a + length b))"

subsection \<open>numpy's round\<close>

text \<open>
  \<open>numpy.round(x, decimals)\<close> scales by \<open>10^decimals\<close>, rounds half to even and
  scales back. The model does so on the exact decimal value of the number; on a binary
  float the library can differ from it where \<open>x * 10^decimals\<close> sits next to a tie or
  overflows. The ints it raises on are those of \<open>np_round_raises\<close>.
\<close>

definition round_half_even :: "rat \<Rightarrow> int" where
  "round_half_even x =
     (let f = \<lfloor>x\<rfloor>; d = x - of_int f
      in if d < 1 / 2 then f else if d > 1 / 2 then f + 1 else if even f then f else f + 1)"

definition np_round :: "rat \<Rightarrow> nat \<Rightarrow> rat" where
  "np_round x decimals = of_int (round_half_even (x * 10 ^ decimals)) / 10 ^ decimals"

definition stdlib :: lib where
  "stdlib = \<lparr>ratio = difflib_ratio, around = np_round\<rparr>"

section \<open>Notions used to state the properties\<close>

text \<open>A small worksheet and a grid, for the examples.\<close>

definition demo_sheet :: worksheet where
  "demo_sheet =
     [[\<lparr>coordinate = ''A1'', cell_value = PStr ''Name''\<rparr>,
       \<lparr>coordinate = ''B1'', cell_value = PFloat 31 (- 1)\<rparr>],
      [\<lparr>coordinate = ''A2'', cell_value = PStr ''Total''\<rparr>,
       \<lparr>coordinate = ''B2'', cell_value = PFloat 314 (- 2)\<rparr>],
      [\<lparr>coordinate = ''A3'', cell_value = PStr ''Totals''\<rparr>,
       \<lparr>coordinate = ''B3'', cell_value = PTime 12 0 0 0\<rparr>]]"

definition demo_grid :: grid where
  "demo_grid r c = PInt (int (10 * r + c))"

text \<open>The type test of the search: every target is an instance of the first target's type.\<close>

definition same_type_as_first :: "pyval list \<Rightarrow> bool" where
  "same_type_as_first ts =
     (case ts of [] \<Rightarrow> True | t0 # _ \<Rightarrow> list_all (\<lambda>target_i. isinstance target_i (type_of t0)) ts)"

text \<open>A corner that is a tuple of two elements, not both ints, and the error a corner raises
  on its own, if any.\<close>

fun is_int :: "pyval \<Rightarrow> bool" where
  "is_int (PInt _) = True"
| "is_int _ = False"

fun unassigned_pair :: "corner \<Rightarrow> bool" where
  "unassigned_pair (CornerTuple [x, y]) = (\<not> (is_int x \<and> is_int y))"
| "unassigned_pair _ = False"

definition corner_error :: "corner \<Rightarrow> error option" where
  "corner_error co = (case bind_corner co of Inl e \<Rightarrow> Some e | Inr _ \<Rightarrow> None)"

text \<open>The texts \<open>str\<close> gives a number: a sign, digits, an optional point and fraction,
  an optional exponent with its sign.\<close>

definition numeric_text :: "string \<Rightarrow> bool" where
  "numeric_text s \<longleftrightarrow>
     (\<exists>sg ip fr ex. s = sg @ ip @ fr @ ex
        \<and> (sg = [] \<or> sg = ''-'')
        \<and> ip \<noteq> [] \<and> list_all is_digit ip
        \<and> (fr = [] \<or> (\<exists>fp. fr = CHR ''.'' # fp \<and> list_all is_digit fp))
        \<and> (ex = [] \<or> (\<exists>c ds. ex = CHR ''e'' # c # ds \<and> (c = CHR ''-'' \<or> c = CHR ''+'')
                                 \<and> ds \<noteq> [] \<and> list_all is_digit ds)))"

text \<open>The order of the scan: for each target in turn, the cells row by row.\<close>

definition scan_order :: "worksheet \<Rightarrow> pyval list \<Rightarrow> (pyval \<times> cell) list" where
  "scan_order sheet search_targets = List.product search_targets (concat sheet)"

text \<open>
  What raises in the scan of a number target: converting the target to text and counting
  its digits, before its first cell, and rounding a number cell or the target at a number
  cell.
\<close>

definition target_raises :: "pyval \<Rightarrow> bool" where
  "target_raises target \<longleftrightarrow>
     is_Number target
     \<and> (str_raises target
          \<or> (case count_significant_digits (PStr (py_str target)) of
                Inl _ \<Rightarrow> True | Inr _ \<Rightarrow> False))"

definition compare_raises :: "pyval \<Rightarrow> pyval \<Rightarrow> bool" where
  "compare_raises target v \<longleftrightarrow>
     is_Number target \<and> is_Number v \<and> (np_round_raises v \<or> np_round_raises target)"

definition raises_at :: "pyval \<Rightarrow> pyval \<Rightarrow> bool" where
  "raises_at target v \<longleftrightarrow> target_raises target \<or> compare_raises target v"

text \<open>
  An equal hit, as the specification words it for each kind: a number cell equal to the
  number target after both are rounded to the target's significant-digit count (the
  conversion, the count and the two roundings returning); for a text, date, datetime or
  time target, a cell equal to it.
\<close>

definition equal_hit :: "lib \<Rightarrow> pyval \<Rightarrow> pyval \<Rightarrow> bool" where
  "equal_hit L target v \<longleftrightarrow>
     (if is_Number target then
        is_Number v \<and> \<not> str_raises target
        \<and> \<not> np_round_raises v \<and> \<not> np_round_raises target
        \<and> (case count_significant_digits (PStr (py_str target)) of
             Inl _ \<Rightarrow> False
           | Inr d \<Rightarrow> around L (num_val v) d = around L (num_val target) d)
      else type_of target \<in> {TyStr, TyDate, TyDateTime, TyTime} \<and> v = target)"

text \<open>A loop body that stops the scan at some cells, returning or raising there, and
  otherwise continues without touching the read log.\<close>

definition stop_body :: "(cell \<Rightarrow> bool) \<Rightarrow> (cell \<Rightarrow> flow) \<Rightarrow> (cell \<Rightarrow> scan \<Rightarrow> flow \<times> scan) \<Rightarrow> bool" where
  "stop_body stop out body \<longleftrightarrow>
     (\<forall>c s. (stop c \<longrightarrow> body c s = (out c, s) \<and> out c \<noteq> Continue)
          \<and> (\<not> stop c \<longrightarrow> fst (body c s) = Continue \<and> reads (snd (body c s)) = reads s))"

text \<open>Where the scan of a target stops in first-hit mode, and how: at a comparison that
  raises, with TypeError, and at an equal hit, returning the cell.\<close>

definition scan_stop :: "lib \<Rightarrow> pyval \<Rightarrow> cell \<Rightarrow> bool" where
  "scan_stop L target c \<longleftrightarrow>
     compare_raises target (cell_value c) \<or> equal_hit L target (cell_value c)"

definition scan_out :: "pyval \<Rightarrow> cell \<Rightarrow> flow" where
  "scan_out target c =
     (if compare_raises target (cell_value c) then Raise TypeError
      else Return (coordinate c) (cell_value c))"

text \<open>How a scan of a list ends and what it has read: up to and including the first stop.\<close>

definition stop_of :: "('a \<Rightarrow> bool) \<Rightarrow> ('a \<Rightarrow> flow) \<Rightarrow> 'a list \<Rightarrow> flow" where
  "stop_of P out xs = (case find P xs of None \<Rightarrow> Continue | Some x \<Rightarrow> out x)"

definition read_upto :: "('a \<Rightarrow> bool) \<Rightarrow> ('a \<Rightarrow> cell) \<Rightarrow> 'a list \<Rightarrow> string list" where
  "read_upto P f xs =
     map (coordinate \<circ> f) (takeWhile (\<lambda>x. \<not> P x) xs)
     @ (case find P xs of None \<Rightarrow> [] | Some x \<Rightarrow> [coordinate (f x)])"

text \<open>The equal hits of a whole scan, in order, and the dict that pairs their coordinates
  and values.\<close>

definition equal_hits :: "lib \<Rightarrow> worksheet \<Rightarrow> pyval list \<Rightarrow> cell list" where
  "equal_hits L sheet search_targets =
     map snd (filter (\<lambda>(t, c). equal_hit L t (cell_value c)) (scan_order sheet search_targets))"

definition bucket_of :: "cell list \<Rightarrow> bucket" where
  "bucket_of cs = \<lparr>Coordinate = map coordinate cs, Value = map cell_value cs\<rparr>"

definition bucket_append :: "bucket \<Rightarrow> cell list \<Rightarrow> bucket" where
  "bucket_append b cs =
     \<lparr>Coordinate = Coordinate b @ map coordinate cs, Value = Value b @ map cell_value cs\<rparr>"

text \<open>A loop body with \<open>return_first_hit\<close> off, on the cells where nothing raises: it
  continues, leaves the read log alone and appends the cell to the equal bucket exactly on
  a hit.\<close>

definition collect_body :: "(cell \<Rightarrow> bool) \<Rightarrow> (cell \<Rightarrow> bool) \<Rightarrow> (cell \<Rightarrow> scan \<Rightarrow> flow \<times> scan) \<Rightarrow> bool" where
  "collect_body ok hit body \<longleftrightarrow>
     (\<forall>c s. ok c \<longrightarrow>
            fst (body c s) = Continue
          \<and> reads (snd (body c s)) = reads s
          \<and> equal_targets (snd (body c s))
              = bucket_append (equal_targets s) (if hit c then [c] else []))"


section \<open>Properties of count_significant_digits\<close>

text \<open>Only an int can fail to convert to text.\<close>

lemma str_raises_simps [simp]:
  "\<not> str_raises PNone" "\<not> str_raises (PStr x)" "\<not> str_raises (PFloat m e)"
  "\<not> str_raises (PDate y mo d)" "\<not> str_raises (PDateTime y mo d h mi sec us)"
  "\<not> str_raises (PTime h mi sec us)" "\<not> str_raises (POther ty x)"
  by (simp_all add: str_raises_def)

lemma str_raises_1: "\<not> str_raises (PInt 1)"
  by code_simp

text \<open>
  C2. The specification gives 4 significant digits to \<open>1.230\<close>, 3 to \<open>100\<close> and 1 to
  \<open>0.001\<close>. The function returns 4 for each of them: \<open>Decimal('100').normalize()\<close>
  prints as \<open>1E+2\<close>, whose four characters are counted, and the leading zeros of
  \<open>0.001\<close> stay in the normalised text and are counted too.
\<close>

theorem count_significant_digits_examples:
  "count_significant_digits (PStr ''1.230'') = Inr 4
   \<and> count_significant_digits (PStr ''100'') = Inr 4
   \<and> count_significant_digits (PStr ''0.001'') = Inr 4"
  by code_simp

text \<open>
  The text of an int or of a float is always accepted: \<open>float()\<close> and \<open>Decimal()\<close>
  read it, so the count of a number target raises no ValueError; it fails only where
  \<open>normalize\<close> overflows.
\<close>

lemma is_digit_digit_char: "d < 10 \<Longrightarrow> is_digit (digit_char d)"
  by (simp add: is_digit_def digit_char_def)

lemma nat_str_digits: "nat_str n \<noteq> [] \<and> list_all is_digit (nat_str n)"
proof (induction n rule: nat_str.induct)
  case (1 n)
  show ?case
  proof (cases "n < 10")
    case True
    then show ?thesis by (subst (1 2) nat_str.simps) (simp add: is_digit_digit_char)
  next
    case False
    with 1 show ?thesis by (subst (1 2) nat_str.simps) (simp add: is_digit_digit_char)
  qed
qed

lemma is_digit_facts:
  "is_digit c \<Longrightarrow> \<not> py_isspace c \<and> c \<noteq> CHR ''_'' \<and> c \<noteq> CHR ''.'' \<and> c \<noteq> CHR ''-''
     \<and> c \<noteq> CHR ''+'' \<and> ascii_lower c \<noteq> CHR ''e'' \<and> ascii_lower c \<noteq> CHR ''i''
     \<and> ascii_lower c \<noteq> CHR ''n''"
  by (auto simp: is_digit_def py_isspace_def ascii_lower_def Let_def)

lemma py_strip_id:
  assumes "\<forall>c\<in>set s. \<not> py_isspace c"
  shows "py_strip s = s"
proof -
  have "dropWhile py_isspace s = s" using assms by (cases s) auto
  moreover have "dropWhile py_isspace (rev s) = rev s" using assms by (cases "rev s") auto
  ultimately show ?thesis by (simp add: py_strip_def)
qed

lemma float_isspace_py: "float_isspace c \<Longrightarrow> py_isspace c"
  by (auto simp: float_isspace_def py_isspace_def Let_def)

lemma float_strip_id:
  assumes "\<forall>c\<in>set s. \<not> py_isspace c"
  shows "float_strip s = s"
proof -
  from assms have a: "\<forall>c\<in>set s. \<not> float_isspace c" using float_isspace_py by blast
  have "dropWhile float_isspace s = s" using a by (cases s) auto
  moreover have "dropWhile float_isspace (rev s) = rev s" using a by (cases "rev s") auto
  ultimately show ?thesis by (simp add: float_strip_def)
qed

lemma normalize_error: "normalize d = Inl e \<Longrightarrow> e = Overflow"
  by (cases d) (auto simp: Let_def split: prod.splits if_splits)

lemma float_underscores_id:
  "CHR ''_'' \<notin> set s \<Longrightarrow> prev \<noteq> Some (CHR ''_'') \<Longrightarrow> float_underscores prev s = Some s"
  by (induction s arbitrary: prev) auto

lemma remove_char_id: "c \<notin> set s \<Longrightarrow> remove_char c s = s"
  by (induction s) (auto simp: remove_char_def)

lemma takeWhile_digits:
  "list_all is_digit ds \<Longrightarrow> rest = [] \<or> \<not> is_digit (hd rest) \<Longrightarrow>
   takeWhile is_digit (ds @ rest) = ds \<and> dropWhile is_digit (ds @ rest) = rest"
  by (cases rest) (auto simp: list_all_iff takeWhile_append2 dropWhile_append2)

lemma not_digit_chars:
  "\<not> is_digit (CHR ''.'')" "\<not> is_digit (CHR ''e'')" "\<not> is_digit (CHR ''-'')" "\<not> is_digit (CHR ''+'')"
  by (simp_all add: is_digit_def)

lemma parse_exponent_ok:
  assumes "ex = [] \<or> (\<exists>c ds. ex = CHR ''e'' # c # ds \<and> (c = CHR ''-'' \<or> c = CHR ''+'')
                                 \<and> ds \<noteq> [] \<and> list_all is_digit ds)"
  shows "parse_exponent ex \<noteq> None"
  using assms by (auto simp: parse_exponent_def split_sign_def ascii_lower_def)

lemma parse_numeric_digits_first:
  assumes ip: "ip \<noteq> []" "list_all is_digit ip"
    and fr: "fr = [] \<or> (\<exists>fp. fr = CHR ''.'' # fp \<and> list_all is_digit fp)"
    and ex: "ex = [] \<or> (\<exists>c ds. ex = CHR ''e'' # c # ds \<and> (c = CHR ''-'' \<or> c = CHR ''+'')
                                 \<and> ds \<noteq> [] \<and> list_all is_digit ds)"
    and r: "split_sign s = (neg, ip @ fr @ ex)"
  shows "parse_numeric s \<noteq> None"
proof -
  obtain d ip' where d: "ip = d # ip'" "is_digit d" using ip by (cases ip) auto
  let ?r = "ip @ fr @ ex"
  have l: "map ascii_lower ?r \<noteq> ''inf''" "map ascii_lower ?r \<noteq> ''infinity''"
    "map ascii_lower ?r \<noteq> ''nan''"
    using d is_digit_facts[of d] by auto
  have rest: "fr @ ex = [] \<or> \<not> is_digit (hd (fr @ ex))"
    using fr ex by (auto simp: not_digit_chars)
  have tw: "takeWhile is_digit ?r = ip" "dropWhile is_digit ?r = fr @ ex"
    using takeWhile_digits[OF ip(2) rest] by auto
  have ex0: "ex = [] \<or> \<not> is_digit (hd ex)" using ex by (auto simp: not_digit_chars)
  obtain y where pe: "parse_exponent ex = Some y" using parse_exponent_ok[OF ex] by auto
  have step: "parse_numeric s =
      (let (fp, r2) = (case fr @ ex of
                          [] \<Rightarrow> ([], fr @ ex)
                        | c # t \<Rightarrow> if c = CHR ''.''
                                   then (takeWhile is_digit t, dropWhile is_digit t)
                                   else ([], fr @ ex))
       in if ip = [] \<and> fp = [] then None
          else (case parse_exponent r2 of
                  None \<Rightarrow> None
                | Some ex \<Rightarrow> Some (Finite neg (digits_val (ip @ fp)) (ex - int (length fp)))))"
    unfolding parse_numeric_def r by (simp only: Let_def prod.case l tw if_False simp_thms)
  show ?thesis
  proof (cases "fr = []")
    case True
    have "(case fr @ ex of
             [] \<Rightarrow> ([], fr @ ex)
           | c # t \<Rightarrow> if c = CHR ''.''
                      then (takeWhile is_digit t, dropWhile is_digit t)
                      else ([], fr @ ex)) = ([], ex)"
      using True ex by auto
    then show ?thesis unfolding step using ip(1) pe by simp
  next
    case False
    then obtain fp where fp: "fr = CHR ''.'' # fp" "list_all is_digit fp" using fr by auto
    have tw2: "takeWhile is_digit (fp @ ex) = fp" "dropWhile is_digit (fp @ ex) = ex"
      using takeWhile_digits[OF fp(2) ex0] by auto
    have "(case fr @ ex of
             [] \<Rightarrow> ([], fr @ ex)
           | c # t \<Rightarrow> if c = CHR ''.''
                      then (takeWhile is_digit t, dropWhile is_digit t)
                      else ([], fr @ ex)) = (fp, ex)"
      by (simp add: fp(1) tw2)
    then show ?thesis unfolding step using ip(1) pe by simp
  qed
qed


lemma parse_numeric_text: "numeric_text s \<Longrightarrow> parse_numeric s \<noteq> None"
proof -
  assume "numeric_text s"
  then obtain sg ip fr ex where s: "s = sg @ ip @ fr @ ex"
    and sg: "sg = [] \<or> sg = ''-''"
    and ip: "ip \<noteq> []" "list_all is_digit ip"
    and fr: "fr = [] \<or> (\<exists>fp. fr = CHR ''.'' # fp \<and> list_all is_digit fp)"
    and ex: "ex = [] \<or> (\<exists>c ds. ex = CHR ''e'' # c # ds \<and> (c = CHR ''-'' \<or> c = CHR ''+'')
                                 \<and> ds \<noteq> [] \<and> list_all is_digit ds)"
    unfolding numeric_text_def by blast
  obtain d ip' where d: "ip = d # ip'" "is_digit d" using ip by (cases ip) auto
  have dd: "d \<noteq> CHR ''-''" "d \<noteq> CHR ''+''" using is_digit_facts[OF d(2)] by simp_all
  from sg have "\<exists>neg. split_sign s = (neg, ip @ fr @ ex)"
  proof
    assume "sg = []"
    then show ?thesis using dd by (auto simp: s d(1) split_sign_def)
  next
    assume "sg = ''-''"
    then show ?thesis by (auto simp: s split_sign_def)
  qed
  then obtain neg where "split_sign s = (neg, ip @ fr @ ex)" ..
  from parse_numeric_digits_first[OF ip fr ex this] show ?thesis .
qed

lemma plain_chars:
  "\<not> py_isspace (CHR ''-'')" "\<not> py_isspace (CHR ''+'')" "\<not> py_isspace (CHR ''.'')"
  "\<not> py_isspace (CHR ''e'')"
  by (simp_all add: py_isspace_def)

lemma numeric_text_chars:
  assumes "numeric_text s"
  shows "(\<forall>c\<in>set s. \<not> py_isspace c) \<and> CHR ''_'' \<notin> set s"
proof -
  from assms obtain sg ip fr ex where s: "s = sg @ ip @ fr @ ex"
    and sg: "sg = [] \<or> sg = ''-''"
    and ip: "list_all is_digit ip"
    and fr: "fr = [] \<or> (\<exists>fp. fr = CHR ''.'' # fp \<and> list_all is_digit fp)"
    and ex: "ex = [] \<or> (\<exists>c ds. ex = CHR ''e'' # c # ds \<and> (c = CHR ''-'' \<or> c = CHR ''+'')
                                 \<and> ds \<noteq> [] \<and> list_all is_digit ds)"
    unfolding numeric_text_def by blast
  let ?ok = "\<lambda>c. \<not> py_isspace c \<and> c \<noteq> CHR ''_''"
  have digs: "list_all is_digit xs \<Longrightarrow> \<forall>c\<in>set xs. ?ok c" for xs
    using is_digit_facts by (auto simp: list_all_iff)
  have 1: "\<forall>c\<in>set sg. ?ok c" using sg plain_chars by auto
  have 2: "\<forall>c\<in>set ip. ?ok c" using digs[OF ip] .
  have 3: "\<forall>c\<in>set fr. ?ok c"
  proof (cases "fr = []")
    case True
    then show ?thesis by simp
  next
    case False
    then obtain fp where "fr = CHR ''.'' # fp" "list_all is_digit fp" using fr by auto
    then show ?thesis using digs[of fp] plain_chars by simp
  qed
  have 4: "\<forall>c\<in>set ex. ?ok c"
  proof (cases "ex = []")
    case True
    then show ?thesis by simp
  next
    case False
    then obtain c ds where "ex = CHR ''e'' # c # ds" "c = CHR ''-'' \<or> c = CHR ''+''"
      "list_all is_digit ds" using ex by auto
    then show ?thesis using digs[of ds] plain_chars by auto
  qed
  have "\<forall>c\<in>set s. ?ok c" using 1 2 3 4 by (simp add: s ball_Un)
  then show ?thesis by blast
qed

lemma count_significant_digits_numeric_text:
  "numeric_text s \<Longrightarrow>
     (\<exists>d. count_significant_digits (PStr s) = Inr d)
     \<or> count_significant_digits (PStr s) = Inl Overflow"
proof -
  assume n: "numeric_text s"
  from numeric_text_chars[OF n] have st: "py_strip s = s" and fst: "float_strip s = s"
    and us: "CHR ''_'' \<notin> set s"
    using py_strip_id float_strip_id by auto
  have fu: "float_underscores None s = Some s" using float_underscores_id[OF us] by simp
  have fa: "float_accepts s"
    using parse_numeric_text[OF n] by (simp add: float_accepts_def fst fu)
  have "Decimal s \<noteq> None"
    using parse_numeric_text[OF n] by (simp add: Decimal_def st remove_char_id[OF us])
  then obtain dd where dd: "Decimal s = Some dd" by auto
  show ?thesis
  proof (cases "normalize dd")
    case (Inl e)
    with normalize_error[OF Inl] fa dd show ?thesis
      by (simp add: count_significant_digits_def)
  next
    case (Inr nd)
    with fa dd show ?thesis by (simp add: count_significant_digits_def Let_def)
  qed
qed


lemma numeric_text_nat_str: "numeric_text (nat_str n)"
  unfolding numeric_text_def
  by (rule exI[of _ "[]"], rule exI[of _ "nat_str n"], rule exI[of _ "[]"], rule exI[of _ "[]"])
     (simp add: nat_str_digits)

lemma numeric_text_int_str: "numeric_text (int_str i)"
proof (cases "i < 0")
  case True
  have "numeric_text (''-'' @ nat_str (nat (- i)) @ [] @ [])"
    unfolding numeric_text_def
    by (rule exI[of _ "''-''"], rule exI[of _ "nat_str (nat (- i))"], rule exI[of _ "[]"],
        rule exI[of _ "[]"]) (simp add: nat_str_digits)
  with True show ?thesis by (simp add: int_str_def)
next
  case False
  then show ?thesis using numeric_text_nat_str by (simp add: int_str_def)
qed

lemma numeric_textI:
  assumes "sg = [] \<or> sg = ''-''" "ip \<noteq> []" "list_all is_digit ip"
    "fr = [] \<or> (\<exists>fp. fr = CHR ''.'' # fp \<and> list_all is_digit fp)"
    "ex = [] \<or> (\<exists>c ds. ex = CHR ''e'' # c # ds \<and> (c = CHR ''-'' \<or> c = CHR ''+'')
                                 \<and> ds \<noteq> [] \<and> list_all is_digit ds)"
  shows "numeric_text (sg @ ip @ fr @ ex)"
  unfolding numeric_text_def using assms by blast

lemma is_digit_0: "is_digit (CHR ''0'')"
  by (simp add: is_digit_def)

lemma zero_pad_digits: "zero_pad w n \<noteq> [] \<and> list_all is_digit (zero_pad w n)"
  using nat_str_digits[of n] by (auto simp: zero_pad_def is_digit_0 list_all_iff)

lemma list_all_take_drop:
  "list_all P xs \<Longrightarrow> list_all P (take k xs) \<and> list_all P (drop k xs)"
  by (auto simp: list_all_iff dest: in_set_takeD in_set_dropD)

lemma float_body_text:
  assumes ds: "ds \<noteq> []" "list_all is_digit ds" and sg: "sg = [] \<or> sg = ''-''"
  shows "numeric_text (sg @
           (if decpt \<le> - 4 \<or> decpt > 16 then
              take 1 ds @ (if n > 1 then CHR ''.'' # drop 1 ds else [])
              @ ''e'' @ [if decpt - 1 < 0 then CHR ''-'' else CHR ''+'']
              @ zero_pad 2 (nat \<bar>decpt - 1\<bar>)
            else if decpt \<le> 0 then ''0.'' @ replicate (nat (- decpt)) (CHR ''0'') @ ds
            else if decpt \<ge> n then ds @ replicate (nat (decpt - n)) (CHR ''0'') @ ''.0''
            else take (nat decpt) ds @ ''.'' @ drop (nat decpt) ds))"
    (is "numeric_text (sg @ ?body)")
proof -
  have zeros: "list_all is_digit (replicate k (CHR ''0''))" for k
    by (simp add: list_all_iff is_digit_0)
  consider (sci) "decpt \<le> - 4 \<or> decpt > 16"
    | (small) "\<not> (decpt \<le> - 4 \<or> decpt > 16)" "decpt \<le> 0"
    | (whole) "\<not> (decpt \<le> - 4 \<or> decpt > 16)" "\<not> decpt \<le> 0" "decpt \<ge> n"
    | (mid) "\<not> (decpt \<le> - 4 \<or> decpt > 16)" "\<not> decpt \<le> 0" "\<not> decpt \<ge> n"
    by blast
  then show ?thesis
  proof cases
    case sci
    let ?ip = "take 1 ds"
    let ?fr = "if n > 1 then CHR ''.'' # drop 1 ds else []"
    let ?ex = "CHR ''e'' # (if decpt - 1 < 0 then CHR ''-'' else CHR ''+'')
                 # zero_pad 2 (nat \<bar>decpt - 1\<bar>)"
    have "numeric_text (sg @ ?ip @ ?fr @ ?ex)"
    proof (rule numeric_textI[OF sg])
      show "?ip \<noteq> []" using ds(1) by (cases ds) auto
      show "list_all is_digit ?ip" using list_all_take_drop[OF ds(2)] by blast
      show "?fr = [] \<or> (\<exists>fp. ?fr = CHR ''.'' # fp \<and> list_all is_digit fp)"
        using list_all_take_drop[OF ds(2), of 1] by auto
      show "?ex = [] \<or> (\<exists>c ds. ?ex = CHR ''e'' # c # ds \<and> (c = CHR ''-'' \<or> c = CHR ''+'')
                                 \<and> ds \<noteq> [] \<and> list_all is_digit ds)"
        using zero_pad_digits[of 2 "nat \<bar>decpt - 1\<bar>"] by auto
    qed
    moreover have "?body = ?ip @ ?fr @ ?ex" using sci by simp
    ultimately show ?thesis by simp
  next
    case small
    have "numeric_text (sg @ ''0'' @ (CHR ''.'' # replicate (nat (- decpt)) (CHR ''0'') @ ds) @ [])"
      by (rule numeric_textI[OF sg]) (simp_all add: is_digit_0 zeros ds)
    moreover have "?body = ''0'' @ (CHR ''.'' # replicate (nat (- decpt)) (CHR ''0'') @ ds) @ []"
      using small by simp
    ultimately show ?thesis by simp
  next
    case whole
    have "numeric_text (sg @ (ds @ replicate (nat (decpt - n)) (CHR ''0'')) @ ''.0'' @ [])"
      by (rule numeric_textI[OF sg]) (simp_all add: is_digit_0 zeros ds)
    moreover have "?body = (ds @ replicate (nat (decpt - n)) (CHR ''0'')) @ ''.0'' @ []"
      using whole by simp
    ultimately show ?thesis by simp
  next
    case mid
    have "take (nat decpt) ds \<noteq> []" using mid ds(1) by (cases ds) auto
    then have "numeric_text (sg @ take (nat decpt) ds @ (CHR ''.'' # drop (nat decpt) ds) @ [])"
      using list_all_take_drop[OF ds(2), of "nat decpt"]
      by (intro numeric_textI[OF sg]) simp_all
    moreover have "?body = take (nat decpt) ds @ (CHR ''.'' # drop (nat decpt) ds) @ []"
      using mid by simp
    ultimately show ?thesis by simp
  qed
qed

lemma numeric_text_float_str: "numeric_text (float_str m e)"
proof (cases "m = 0")
  case True
  have "numeric_text ([] @ ''0'' @ ''.0'' @ [])"
    by (rule numeric_textI) (simp_all add: is_digit_0)
  with True show ?thesis by (simp add: float_str_def)
next
  case False
  obtain c e1 where ce: "strip_zeros (nat \<bar>m\<bar>) e = (c, e1)" by (cases "strip_zeros (nat \<bar>m\<bar>) e")
  have sg: "(if m < 0 then ''-'' else []) = [] \<or> (if m < 0 then ''-'' else []) = ''-''" by simp
  from float_body_text[OF conjunct1[OF nat_str_digits] conjunct2[OF nat_str_digits] sg,
      where decpt = "int (length (nat_str c)) + e1" and n = "int (length (nat_str c))"] False
  show ?thesis by (simp add: float_str_def ce Let_def)
qed

lemma count_significant_digits_number:
  "is_Number t \<Longrightarrow>
     (\<exists>d. count_significant_digits (PStr (py_str t)) = Inr d)
     \<or> count_significant_digits (PStr (py_str t)) = Inl Overflow"
  using count_significant_digits_numeric_text[OF numeric_text_int_str]
    count_significant_digits_numeric_text[OF numeric_text_float_str]
  by (cases t) auto


section \<open>Properties of is_similar\<close>

lemma valid_strs_filter:
  "valid_strs r target threshold xs (ys, zs) =
     (ys @ filter (\<lambda>s. r target s \<ge> threshold) xs,
      zs @ map (r target) (filter (\<lambda>s. r target s \<ge> threshold) xs))"
  by (induction xs arbitrary: ys zs) (simp_all add: Let_def)

text \<open>
  With a list and \<open>return_similarrity_score\<close>, the target and the elements converting
  to text, the result is the pair of arrays of the stripped elements that reach the
  threshold, in order, and of their scores, or \<open>(None, None)\<close> when there is none.
\<close>

lemma is_similar_list_scores:
  "\<not> str_raises target \<Longrightarrow> \<not> list_ex str_raises xs \<Longrightarrow>
   is_similar r target (PyList xs) threshold True =
     (let tgt = py_strip (py_str target);
          valid = filter (\<lambda>s. r tgt s \<ge> threshold) (map (\<lambda>ti. py_strip (py_str ti)) xs)
      in if valid = [] then Inr SimNonePair else Inr (SimArrays valid (map (r tgt) valid)))"
  by (simp add: is_similar_def Let_def valid_strs_filter)

lemma is_similar_apple_list:
  "is_similar difflib_ratio (PStr ''apple'') (PyList [PStr ''appel'', PStr ''banana'']) (3 / 4) True
     = Inr (SimArrays [''appel''] [4 / 5])"
  by code_simp

text \<open>
  C8. The sequence passed as \<open>test\<close> may be a list or a tuple. A tuple never reaches the
  scoring loop: the first type test accepts a list, a string or a number only, and the call
  raises TypeError, whatever the target, the threshold and the flag.
\<close>

theorem is_similar_tuple_raises:
  "is_similar r target (PyTuple xs) threshold return_similarrity_score = Inl TypeError"
  by (simp add: is_similar_def Let_def)


section \<open>Properties of search_excl_val\<close>

lemma int_str_1: "int_str 1 = ''1''"
  by code_simp

lemma count_significant_digits_1: "count_significant_digits (PStr ''1'') = Inr 1"
  by code_simp

text \<open>
  C9. An empty target list: indexing \<open>search_targets[0]\<close> raises IndexError, and no
  cell has been read.
\<close>

theorem search_excl_val_empty_targets:
  "search_excl_val L sheet [] threshold return_first_hit return_all_vals = (Inl IndexError, [])"
  by (simp add: search_excl_val_def)

text \<open>
  C1. With both flags off and a non-empty equal bucket, the number branch returns the
  list of coordinates alone, not the dict that pairs coordinates and values: searching the
  number 1 in a sheet whose only cell A1 holds 1 gives \<open>['A1']\<close>.
\<close>

theorem search_excl_val_number_equal_bucket:
  "search_excl_val L [[\<lparr>coordinate = ''A1'', cell_value = PInt 1\<rparr>]] [PInt 1] threshold False False
     = (Inr (CoordList [''A1'']), [''A1''])"
  by (simp add: search_excl_val_def isinstance_def num_target_def num_body_def finish_def
      scan0_def add_equal_def int_str_1 count_significant_digits_1 np_round_raises_def
      str_raises_1)

text \<open>
  C6. With both flags off and no equal cell, the time-of-day branch reaches the end of
  the function and returns \<open>None\<close>, not \<open>(None, None)\<close>: searching 12:00:00 in a sheet
  whose only cell A1 holds 09:30:00.
\<close>

theorem search_excl_val_time_no_match:
  "search_excl_val L [[\<lparr>coordinate = ''A1'', cell_value = PTime 9 30 0 0\<rparr>]] [PTime 12 0 0 0]
       threshold False False
     = (Inr NoneResult, [''A1''])"
  by (simp add: search_excl_val_def isinstance_def time_body_def finish_def
      scan0_def add_similar_def)






text \<open>A cell is logged before the loop body runs on it, so whatever the cell loops raise
  comes with a read.\<close>

lemma reads_add [simp]:
  "reads (add_equal c s) = reads s" "reads (add_similar c s) = reads s"
  by (simp_all add: add_equal_def add_similar_def)

lemma str_body_reads: "reads (snd (str_body L threshold fh t c s)) = reads s"
  by (auto simp: str_body_def Let_def split: sum.splits)

lemma num_body_reads: "reads (snd (num_body L fh d t c s)) = reads s"
  by (simp add: num_body_def Let_def)

lemma date_body_reads: "reads (snd (date_body fh t c s)) = reads s"
  by (simp add: date_body_def Let_def)

lemma time_body_reads: "reads (snd (time_body fh t c s)) = reads s"
  by (simp add: time_body_def Let_def)

lemma for_cells_raise_reads:
  assumes "\<And>c s. reads (snd (body c s)) = reads s"
  shows "fst (for_cells body cs s) = Raise e \<Longrightarrow> reads (snd (for_cells body cs s)) \<noteq> []"
proof (induction cs arbitrary: s)
  case Nil
  then show ?case by simp
next
  case (Cons c cs)
  let ?s1 = "s\<lparr>reads := reads s @ [coordinate c]\<rparr>"
  obtain f s' where b: "body c ?s1 = (f, s')" by (cases "body c ?s1")
  have r: "reads s' \<noteq> []" using assms[of c ?s1] b by simp
  show ?case
  proof (cases f)
    case Continue
    with Cons b show ?thesis by simp
  next
    case (Return co v)
    with b r show ?thesis by simp
  next
    case (Raise e')
    with b r show ?thesis by simp
  qed
qed

lemma for_rows_raise_reads:
  assumes "\<And>c s. reads (snd (body c s)) = reads s"
  shows "fst (for_rows body rows s) = Raise e \<Longrightarrow> reads (snd (for_rows body rows s)) \<noteq> []"
proof (induction rows arbitrary: s)
  case Nil
  then show ?case by simp
next
  case (Cons row rows)
  obtain f s' where b: "for_cells body row s = (f, s')" by (cases "for_cells body row s")
  show ?case
  proof (cases f)
    case Continue
    with Cons b show ?thesis by simp
  next
    case (Return co v)
    with Cons.prems b show ?thesis by simp
  next
    case (Raise e')
    have "fst (for_cells body row s) = Raise e'" using b Raise by simp
    from for_cells_raise_reads[where body = body, OF assms this] b Raise
    show ?thesis by simp
  qed
qed

lemma for_targets_raise_reads:
  assumes "\<And>t s. fst (per_target t s) = Raise e \<Longrightarrow> reads (snd (per_target t s)) \<noteq> []"
  shows "fst (for_targets per_target ts s) = Raise e
           \<Longrightarrow> reads (snd (for_targets per_target ts s)) \<noteq> []"
proof (induction ts arbitrary: s)
  case Nil
  then show ?case by simp
next
  case (Cons t ts)
  obtain f s' where b: "per_target t s = (f, s')" by (cases "per_target t s")
  show ?case
  proof (cases f)
    case Continue
    with Cons b show ?thesis by simp
  next
    case (Return co v)
    with Cons.prems b show ?thesis by simp
  next
    case (Raise e')
    with assms[of t s] Cons.prems b show ?thesis by simp
  qed
qed

lemma rows_targets_raise_reads:
  assumes "\<And>t c s. reads (snd (body t c s)) = reads s"
  shows "fst (for_targets (\<lambda>t. for_rows (body t) sheet) ts s) = Raise e
           \<Longrightarrow> reads (snd (for_targets (\<lambda>t. for_rows (body t) sheet) ts s)) \<noteq> []"
proof (rule for_targets_raise_reads)
  fix t s
  assume "fst (for_rows (body t) sheet s) = Raise e"
  from for_rows_raise_reads[where body = "body t", OF assms this]
  show "reads (snd (for_rows (body t) sheet s)) \<noteq> []" .
qed

lemma count_significant_digits_error:
  "count_significant_digits v = Inl e \<Longrightarrow> e = ValueError \<or> e = Overflow"
  by (auto simp: count_significant_digits_def Let_def
      split: if_splits option.splits sum.splits dest: normalize_error)

lemma num_target_TypeError_reads:
  assumes "fst (num_target L fh sheet t s) = Raise TypeError"
  shows "reads (snd (num_target L fh sheet t s)) \<noteq> []"
proof -
  have sr: "\<not> str_raises t" using assms by (auto simp: num_target_def split: if_splits)
  show ?thesis
  proof (cases "count_significant_digits (PStr (py_str t))")
    case (Inl e)
    with count_significant_digits_error[OF Inl] assms sr show ?thesis
      by (auto simp: num_target_def)
  next
    case (Inr d)
    have "fst (for_rows (num_body L fh d t) sheet s) = Raise TypeError"
      using assms Inr sr by (simp add: num_target_def)
    from for_rows_raise_reads[where body = "num_body L fh d t", OF num_body_reads this]
    show ?thesis using Inr sr by (simp add: num_target_def)
  qed
qed

lemma num_targets_TypeError_reads:
  "fst (for_targets (num_target L fh sheet) ts s) = Raise TypeError
     \<Longrightarrow> reads (snd (for_targets (num_target L fh sheet) ts s)) \<noteq> []"
  by (rule for_targets_raise_reads) (rule num_target_TypeError_reads)

lemma finish_TypeError_unread:
  "finish shape r = (Inl TypeError, []) \<longleftrightarrow> fst r = Raise TypeError \<and> reads (snd r) = []"
  by (cases r; cases "fst r") (auto simp: finish_def)

text \<open>
  C5 (as amended). For a non-empty target list, the search raises TypeError before any
  cell is read exactly when some target is not an instance of the type of the first target.
  The test is on Python types, not on value kinds: \<open>["a", 1]\<close> is rejected and so is
  \<open>[1, 1.5]\<close>, an int followed by a float, while \<open>[1, 2]\<close> passes. (A TypeError can
  still come later, from \<open>numpy.round\<close> on a cell that was read.)
\<close>

theorem search_excl_val_TypeError_iff:
  "search_targets \<noteq> [] \<Longrightarrow>
     (search_excl_val L sheet search_targets threshold return_first_hit return_all_vals
        = (Inl TypeError, [])
      \<longleftrightarrow> \<not> same_type_as_first search_targets)"
proof -
  assume ne: "search_targets \<noteq> []"
  then obtain t0 ts where ts: "search_targets = t0 # ts" by (cases search_targets) auto
  let ?r = "search_excl_val L sheet search_targets threshold return_first_hit return_all_vals"
  show ?thesis
  proof (cases "same_type_as_first search_targets")
    case False
    then have "?r = (Inl TypeError, [])"
      by (simp add: search_excl_val_def same_type_as_first_def ts)
    with False show ?thesis by simp
  next
    case True
    then have "?r \<noteq> (Inl TypeError, [])"
      using rows_targets_raise_reads[where body = "str_body L threshold return_first_hit"
                and sheet = sheet and ts = search_targets and s = scan0 and e = TypeError,
                OF str_body_reads]
        rows_targets_raise_reads[where body = "date_body return_first_hit"
                and sheet = sheet and ts = search_targets and s = scan0 and e = TypeError,
                OF date_body_reads]
        rows_targets_raise_reads[where body = "time_body return_first_hit"
                and sheet = sheet and ts = search_targets and s = scan0 and e = TypeError,
                OF time_body_reads]
        num_targets_TypeError_reads[of L return_first_hit sheet search_targets scan0]
      by (auto simp: search_excl_val_def same_type_as_first_def ts finish_TypeError_unread Let_def)
    with True show ?thesis by simp
  qed
qed

text \<open>C5 as written has \<open>[1, 1.5]\<close> accepted; it is rejected before the scan.\<close>

theorem search_excl_val_int_float_counterexample:
  "search_excl_val stdlib demo_sheet [PInt 1, PFloat 15 (- 1)] (4 / 5) True False
     = (Inl TypeError, [])"
  by (simp add: search_excl_val_def isinstance_def)

theorem search_excl_val_TypeError_iff_witness:
  "[PStr ''a'', PInt 1] \<noteq> []
   \<and> \<not> same_type_as_first [PStr ''a'', PInt 1]
   \<and> search_excl_val stdlib demo_sheet [PStr ''a'', PInt 1] (4 / 5) True False = (Inl TypeError, [])
   \<and> \<not> same_type_as_first [PInt 1, PFloat 15 (- 1)]
   \<and> same_type_as_first [PInt 1, PInt 2]
   \<and> search_excl_val stdlib demo_sheet [PInt 1, PInt 2] (4 / 5) True False \<noteq> (Inl TypeError, [])"
  using search_excl_val_TypeError_iff [of "[PStr ''a'', PInt 1]" stdlib demo_sheet "4 / 5" True False]
    search_excl_val_TypeError_iff [of "[PInt 1, PInt 2]" stdlib demo_sheet "4 / 5" True False]
  by (auto simp: same_type_as_first_def isinstance_def)

text \<open>A TypeError after the type test: the targets pass it, and rounding the cell B1, an
  int of more than 64 bits, raises once A1 and B1 have been read.\<close>

lemma search_excl_val_round_raises:
  "search_excl_val L
     [[\<lparr>coordinate = ''A1'', cell_value = PStr ''x''\<rparr>,
       \<lparr>coordinate = ''B1'', cell_value = PInt 18446744073709551616\<rparr>]]
     [PInt 1] threshold return_first_hit return_all_vals
     = (Inl TypeError, [''A1'', ''B1''])"
  by (simp add: search_excl_val_def isinstance_def num_target_def num_body_def finish_def
      scan0_def int_str_1 count_significant_digits_1 np_round_raises_def str_raises_1)

text \<open>The three loops stop at the first stop of the scan order.\<close>

lemma find_append:
  "find P (xs @ ys) = (case find P xs of None \<Rightarrow> find P ys | Some x \<Rightarrow> Some x)"
  by (induction xs) auto

lemma stop_of_append:
  "stop_of P out (xs @ ys) = (if find P xs = None then stop_of P out ys else stop_of P out xs)"
  by (auto simp: stop_of_def find_append split: option.splits)

lemma read_upto_append:
  "read_upto P f (xs @ ys) =
     (if find P xs = None then map (coordinate \<circ> f) xs @ read_upto P f ys else read_upto P f xs)"
proof (cases "find P xs")
  case None
  then have "\<forall>x\<in>set xs. \<not> P x" by (simp add: find_None_iff)
  then have "takeWhile (\<lambda>x. \<not> P x) (xs @ ys) = xs @ takeWhile (\<lambda>x. \<not> P x) ys"
    by (simp add: takeWhile_append2)
  with None show ?thesis by (simp add: read_upto_def find_append)
next
  case (Some x)
  then have "find P xs \<noteq> None" by simp
  then have "\<exists>x\<in>set xs. P x" by (auto simp: find_None_iff)
  then have "takeWhile (\<lambda>x. \<not> P x) (xs @ ys) = takeWhile (\<lambda>x. \<not> P x) xs"
    by (auto simp: takeWhile_append1 intro: takeWhile_append1)
  with Some show ?thesis by (simp add: read_upto_def find_append)
qed

lemma read_upto_None:
  assumes "find P xs = None"
  shows "read_upto P f xs = map (coordinate \<circ> f) xs"
proof -
  from assms have "\<forall>x\<in>set xs. \<not> P x" by (simp add: find_None_iff)
  then have tw: "takeWhile (\<lambda>x. \<not> P x) xs = xs" by (induction xs) auto
  show ?thesis unfolding read_upto_def assms tw by simp
qed

lemma stop_of_Nil: "stop_of P out [] = Continue"
  by (simp add: stop_of_def)

lemma read_upto_Nil: "read_upto P f [] = []"
  by (simp add: read_upto_def)

lemma for_cells_stop:
  assumes "stop_body stop out body"
  shows "fst (for_cells body cs s) = stop_of stop out cs
         \<and> reads (snd (for_cells body cs s)) = reads s @ read_upto stop (\<lambda>c. c) cs"
proof (induction cs arbitrary: s)
  case Nil
  show ?case by (simp add: stop_of_Nil read_upto_Nil)
next
  case (Cons c cs)
  let ?s1 = "s\<lparr>reads := reads s @ [coordinate c]\<rparr>"
  show ?case
  proof (cases "stop c")
    case True
    then have b: "body c ?s1 = (out c, ?s1)" and o: "out c \<noteq> Continue"
      using assms by (simp_all add: stop_body_def)
    have whole: "for_cells body (c # cs) s = (out c, ?s1)"
      using o by (cases "out c") (simp_all add: b)
    show ?thesis unfolding whole using True by (simp add: stop_of_def read_upto_def)
  next
    case False
    obtain f s' where b: "body c ?s1 = (f, s')" by (cases "body c ?s1")
    from False assms have "fst (body c ?s1) = Continue" "reads (snd (body c ?s1)) = reads ?s1"
      by (simp_all add: stop_body_def)
    with b have f: "f = Continue" and r: "reads s' = reads s @ [coordinate c]" by simp_all
    from Cons[of s'] False show ?thesis by (simp add: b f r stop_of_def read_upto_def)
  qed
qed

lemma stop_of_not_Continue:
  assumes "stop_body stop out body" "find stop cs = Some c"
  shows "stop_of stop out cs \<noteq> Continue"
proof -
  from assms(2) have "stop c" by (auto simp: find_Some_iff)
  with assms(1) have "out c \<noteq> Continue" by (simp add: stop_body_def)
  with assms(2) show ?thesis by (simp add: stop_of_def)
qed

lemma for_rows_stop:
  assumes "stop_body stop out body"
  shows "fst (for_rows body rows s) = stop_of stop out (concat rows)
         \<and> reads (snd (for_rows body rows s)) = reads s @ read_upto stop (\<lambda>c. c) (concat rows)"
proof (induction rows arbitrary: s)
  case Nil
  show ?case by (simp add: stop_of_Nil read_upto_Nil)
next
  case (Cons row rows)
  obtain f s' where b: "for_cells body row s = (f, s')" by (cases "for_cells body row s")
  from for_cells_stop[OF assms, of row s] b
  have f: "f = stop_of stop out row" and r: "reads s' = reads s @ read_upto stop (\<lambda>c. c) row"
    by simp_all
  show ?case
  proof (cases "find stop row")
    case None
    have fc: "f = Continue" using None by (simp add: f stop_of_def)
    have whole: "for_rows body (row # rows) s = for_rows body rows s'" by (simp add: b fc)
    have 1: "stop_of stop out (concat (row # rows)) = stop_of stop out (concat rows)"
      using None by (simp add: stop_of_append)
    have 2: "read_upto stop (\<lambda>c. c) (concat (row # rows))
               = map (coordinate \<circ> (\<lambda>c. c)) row @ read_upto stop (\<lambda>c. c) (concat rows)"
      using None by (simp add: read_upto_append)
    have 3: "reads s' = reads s @ map (coordinate \<circ> (\<lambda>c. c)) row"
      using r None by (simp add: read_upto_None)
    show ?thesis unfolding whole 1 2 using Cons[of s'] 3 by simp
  next
    case (Some c)
    have fr: "f \<noteq> Continue" using stop_of_not_Continue[OF assms Some] by (simp add: f)
    have whole: "for_rows body (row # rows) s = (f, s')"
      using fr by (cases f) (simp_all add: b)
    have 1: "stop_of stop out (concat (row # rows)) = stop_of stop out row"
      using Some by (simp add: stop_of_append)
    have 2: "read_upto stop (\<lambda>c. c) (concat (row # rows)) = read_upto stop (\<lambda>c. c) row"
      using Some by (simp add: read_upto_append)
    show ?thesis unfolding whole 1 2 using f r by simp
  qed
qed

lemma find_Some_mem: "find P xs = Some x \<Longrightarrow> x \<in> set xs \<and> P x"
  by (induction xs) (auto split: if_splits)

lemma product_Nil_right: "List.product ts [] = []"
  by (induction ts) simp_all

lemma find_map_Pair:
  "find (\<lambda>(t, c). P t c) (map (Pair t) cs) = map_option (Pair t) (find (P t) cs)"
  by (induction cs) auto

lemma takeWhile_map_Pair:
  "takeWhile (\<lambda>(t, c). \<not> P t c) (map (Pair t) cs) = map (Pair t) (takeWhile (\<lambda>c. \<not> P t c) cs)"
  by (induction cs) auto

text \<open>
  The target loop, when the scan order has a stop: the loop bodies need to be known only
  for the targets scanned up to that stop.
\<close>

lemma for_targets_stop:
  assumes found: "find (\<lambda>(t, c). P t c) (List.product ts (concat sheet)) = Some (t, c)"
    and scanned: "\<And>t' c'. (t', c') \<in> set (takeWhile (\<lambda>(t, c). \<not> P t c)
                                           (List.product ts (concat sheet))) \<or> t' = t
        \<Longrightarrow> (\<forall>s. per_target t' s = for_rows (body t') sheet s)
            \<and> stop_body (P t') (out t') (body t')"
  shows "fst (for_targets per_target ts s) = out t c
         \<and> reads (snd (for_targets per_target ts s))
             = reads s @ map (\<lambda>(t, c). coordinate c)
                           (takeWhile (\<lambda>(t, c). \<not> P t c) (List.product ts (concat sheet)))
               @ [coordinate c]"
  using assms
proof (induction ts arbitrary: s)
  case Nil
  then show ?case by simp
next
  case (Cons t0 ts)
  let ?cs = "concat sheet"
  let ?Q = "\<lambda>(t, c). P t c"
  let ?N = "\<lambda>(t, c). \<not> P t c"
  have prod: "List.product (t0 # ts) ?cs = map (Pair t0) ?cs @ List.product ts ?cs" by simp
  show ?case
  proof (cases "find (P t0) ?cs")
    case (Some c0)
    have nn: "find ?Q (map (Pair t0) ?cs) = Some (t0, c0)" using Some by (simp add: find_map_Pair)
    have "find ?Q (List.product (t0 # ts) ?cs) = Some (t0, c0)"
      unfolding prod by (simp add: find_append nn)
    with Cons.prems(1) have tc: "t = t0" "c = c0" by simp_all
    from Cons.prems(2)[of t0] tc
    have per: "per_target t0 s = for_rows (body t0) sheet s"
      and sb: "stop_body (P t0) (out t0) (body t0)" by simp_all
    obtain f s' where b: "per_target t0 s = (f, s')" by (cases "per_target t0 s")
    have fr0: "fst (per_target t0 s) = stop_of (P t0) (out t0) ?cs
         \<and> reads (snd (per_target t0 s)) = reads s @ read_upto (P t0) (\<lambda>c. c) ?cs"
      unfolding per by (rule for_rows_stop[OF sb])
    have f: "f = stop_of (P t0) (out t0) ?cs"
      and r: "reads s' = reads s @ read_upto (P t0) (\<lambda>c. c) ?cs"
      using fr0 unfolding b by simp_all
    have fo: "f = out t0 c0" using Some by (simp add: f stop_of_def)
    have fr: "f \<noteq> Continue" using stop_of_not_Continue[OF sb Some] by (simp add: f)
    have whole: "for_targets per_target (t0 # ts) s = (f, s')"
      using fr by (cases f) (simp_all add: b)
    have mem: "(t0, c0) \<in> set (map (Pair t0) ?cs)" and nN: "\<not> ?N (t0, c0)"
      using find_Some_mem[OF nn] by simp_all
    have tw: "takeWhile ?N (List.product (t0 # ts) ?cs)
                = map (Pair t0) (takeWhile (\<lambda>c. \<not> P t0 c) ?cs)"
      unfolding prod takeWhile_append1[where P = "?N", OF mem nN] by (rule takeWhile_map_Pair)
    have ru: "read_upto (P t0) (\<lambda>c. c) ?cs
                = map coordinate (takeWhile (\<lambda>c. \<not> P t0 c) ?cs) @ [coordinate c0]"
      using Some by (simp add: read_upto_def comp_def)
    show ?thesis unfolding whole tw using fo r ru tc by (simp add: comp_def)
  next
    case None
    have nn: "find ?Q (map (Pair t0) ?cs) = None" using None by (simp add: find_map_Pair)
    have rest: "find ?Q (List.product ts ?cs) = Some (t, c)"
      using Cons.prems(1) unfolding prod by (simp add: find_append nn)
    have all: "\<And>x. x \<in> set (map (Pair t0) ?cs) \<Longrightarrow> ?N x"
      using nn by (auto simp: find_None_iff)
    have tw: "takeWhile ?N (List.product (t0 # ts) ?cs)
                = map (Pair t0) ?cs @ takeWhile ?N (List.product ts ?cs)"
      unfolding prod by (rule takeWhile_append2[where P = "?N", OF all])
    have "?cs \<noteq> []"
    proof
      assume "?cs = []"
      with rest show False by (simp add: product_Nil_right)
    qed
    then obtain c1 where c1: "c1 \<in> set ?cs" by (cases ?cs) auto
    have "(t0, c1) \<in> set (takeWhile ?N (List.product (t0 # ts) ?cs))"
      unfolding tw using c1 by simp
    from Cons.prems(2)[of t0 c1] this
    have per: "per_target t0 s = for_rows (body t0) sheet s"
      and sb: "stop_body (P t0) (out t0) (body t0)" by blast+
    obtain f s' where b: "per_target t0 s = (f, s')" by (cases "per_target t0 s")
    have fr0: "fst (per_target t0 s) = stop_of (P t0) (out t0) ?cs
         \<and> reads (snd (per_target t0 s)) = reads s @ read_upto (P t0) (\<lambda>c. c) ?cs"
      unfolding per by (rule for_rows_stop[OF sb])
    have f: "f = stop_of (P t0) (out t0) ?cs"
      and r: "reads s' = reads s @ read_upto (P t0) (\<lambda>c. c) ?cs"
      using fr0 unfolding b by simp_all
    have fc: "f = Continue" using None by (simp add: f stop_of_def)
    have r': "reads s' = reads s @ map coordinate ?cs"
      using r None by (simp add: read_upto_None comp_def)
    have whole: "for_targets per_target (t0 # ts) s = for_targets per_target ts s'"
      by (simp add: b fc)
    have IH: "fst (for_targets per_target ts s') = out t c
         \<and> reads (snd (for_targets per_target ts s'))
             = reads s' @ map (\<lambda>(t, c). coordinate c) (takeWhile ?N (List.product ts ?cs))
               @ [coordinate c]"
    proof (rule Cons.IH[OF rest])
      fix t' c'
      assume "(t', c') \<in> set (takeWhile ?N (List.product ts ?cs)) \<or> t' = t"
      then have "(t', c') \<in> set (takeWhile ?N (List.product (t0 # ts) ?cs)) \<or> t' = t"
        unfolding tw by auto
      from Cons.prems(2)[OF this]
      show "(\<forall>s. per_target t' s = for_rows (body t') sheet s)
              \<and> stop_body (P t') (out t') (body t')" .
    qed
    show ?thesis unfolding whole tw using IH r' by (simp add: comp_def)
  qed
qed

text \<open>Where no comparison raises before the first equal hit, the first stop is that hit.\<close>

lemma first_hit_unraised:
  assumes P: "\<And>y. P y \<longleftrightarrow> R y \<or> H y"
    and NP: "\<And>y. NP y \<longleftrightarrow> \<not> P y"
    and NH: "\<And>y. NH y \<longleftrightarrow> \<not> H y"
    and NR: "\<And>y. NR y \<Longrightarrow> \<not> R y"
  shows "find H xs = Some x \<Longrightarrow> list_all NR (takeWhile NH xs)
           \<Longrightarrow> find P xs = Some x \<and> takeWhile NP xs = takeWhile NH xs"
proof (induction xs)
  case Nil
  then show ?case by simp
next
  case (Cons y ys)
  show ?case
  proof (cases "H y")
    case True
    with Cons.prems show ?thesis by (simp add: P NP NH)
  next
    case False
    with Cons.prems have "NR y" by (simp add: NH)
    then have "\<not> R y" by (rule NR)
    with False Cons show ?thesis by (simp add: P NP NH)
  qed
qed

text \<open>In first-hit mode each kind's loop body stops at a comparison that raises and at
  an equal hit, and nowhere else.\<close>

lemma is_similar_single_str:
  "\<not> str_raises target
     \<Longrightarrow> \<exists>b. is_similar r target (Single (PStr x)) threshold False = Inr (SimBool b)"
  by (simp add: is_similar_def Let_def)

lemma str_body_stop:
  assumes "type_of t = TyStr"
  shows "stop_body (scan_stop L t) (scan_out t) (str_body L threshold True t)"
proof -
  from assms obtain x where t: "t = PStr x" by (cases t) auto
  have stop: "scan_stop L t c \<longleftrightarrow> cell_value c = t" for c
    by (simp add: scan_stop_def compare_raises_def equal_hit_def t)
  have out: "scan_out t c = Return (coordinate c) (cell_value c)" for c
    by (simp add: scan_out_def compare_raises_def t)
  have "str_body L threshold True t c s = (Return (coordinate c) (cell_value c), s)"
    if "cell_value c = t" for c s
    using that by (simp add: str_body_def t isinstance_def)
  moreover have "fst (str_body L threshold True t c s) = Continue
      \<and> reads (snd (str_body L threshold True t c s)) = reads s"
    if "cell_value c \<noteq> t" for c s
  proof -
    have "\<not> str_raises t" by (simp add: t)
    from is_similar_single_str[OF this]
    obtain b where "is_similar (ratio L) t (Single (PStr (py_str (cell_value c)))) threshold False
        = Inr (SimBool b)"
      by blast
    with that show ?thesis by (simp add: str_body_def Let_def)
  qed
  ultimately show ?thesis unfolding stop_body_def stop out by blast
qed

lemma num_body_stop:
  assumes "is_Number t" "\<not> target_raises t"
  shows "stop_body (scan_stop L t) (scan_out t)
           (num_body L True
              (case count_significant_digits (PStr (py_str t)) of Inl _ \<Rightarrow> 0 | Inr d \<Rightarrow> d) t)"
proof -
  from assms obtain d where d: "count_significant_digits (PStr (py_str t)) = Inr d"
    and sr: "\<not> str_raises t"
    by (cases "count_significant_digits (PStr (py_str t))") (auto simp: target_raises_def)
  show ?thesis
    using assms(1) sr
    by (auto simp: stop_body_def scan_stop_def scan_out_def equal_hit_def compare_raises_def
        num_body_def Let_def d)
qed

lemma num_target_rows:
  assumes "is_Number t" "\<not> target_raises t"
  shows "num_target L fh sheet t s =
           for_rows (num_body L fh
                       (case count_significant_digits (PStr (py_str t)) of Inl _ \<Rightarrow> 0 | Inr d \<Rightarrow> d) t)
                    sheet s"
proof -
  from assms obtain d where d: "count_significant_digits (PStr (py_str t)) = Inr d"
    and sr: "\<not> str_raises t"
    by (cases "count_significant_digits (PStr (py_str t))") (auto simp: target_raises_def)
  then show ?thesis by (simp add: num_target_def)
qed

lemma date_body_stop:
  assumes "type_of t = TyDate \<or> type_of t = TyDateTime"
  shows "stop_body (scan_stop L t) (scan_out t) (date_body True t)"
proof -
  have n: "\<not> is_Number t" using assms by (cases t) auto
  have stop: "scan_stop L t c \<longleftrightarrow> cell_value c = t" for c
    using assms n by (auto simp: scan_stop_def compare_raises_def equal_hit_def)
  have out: "scan_out t c = Return (coordinate c) (cell_value c)" for c
    using n by (simp add: scan_out_def compare_raises_def)
  show ?thesis unfolding stop_body_def stop out
    using assms by (auto simp: date_body_def Let_def isinstance_def)
qed

lemma time_body_stop:
  assumes "type_of t = TyTime"
  shows "stop_body (scan_stop L t) (scan_out t) (time_body True t)"
proof -
  have n: "\<not> is_Number t" using assms by (cases t) auto
  have stop: "scan_stop L t c \<longleftrightarrow> cell_value c = t" for c
    using assms n by (auto simp: scan_stop_def compare_raises_def equal_hit_def)
  have out: "scan_out t c = Return (coordinate c) (cell_value c)" for c
    using n by (simp add: scan_out_def compare_raises_def)
  show ?thesis unfolding stop_body_def stop out
    using assms by (auto simp: time_body_def Let_def isinstance_def)
qed

lemma finish_Return:
  "fst r = Return co v \<Longrightarrow> finish shape r = (Inr (Hit co v), reads (snd r))"
  by (cases r) (simp add: finish_def)

lemma equal_hit_unraised:
  "equal_hit L t v \<Longrightarrow> \<not> target_raises t \<and> \<not> compare_raises t v"
  by (cases "count_significant_digits (PStr (py_str t))")
     (auto simp: equal_hit_def target_raises_def compare_raises_def split: if_splits)

text \<open>
  C3 (as amended). In first-hit mode, for targets that pass the type test (each an instance
  of the type of the first), when some cell is an equal hit for some target and nothing
  raises before the first such hit of the scan order (target by target, each over the rows
  in order), the search returns the coordinate and value of that first hit, and the cells
  it has read are exactly those of the scan order up to and including it: nothing after
  the hit is read. This holds for every kind of target and whatever \<open>return_all_vals\<close>
  is.
\<close>

theorem search_excl_val_first_hit:
  assumes homog: "same_type_as_first search_targets"
    and hit: "find (\<lambda>(t, c). equal_hit L t (cell_value c)) (scan_order sheet search_targets)
                = Some (target, c)"
    and quiet: "list_all (\<lambda>(t, c). \<not> raises_at t (cell_value c))
                  (takeWhile (\<lambda>(t, c). \<not> equal_hit L t (cell_value c))
                     (scan_order sheet search_targets))"
  shows "search_excl_val L sheet search_targets threshold True return_all_vals
           = (Inr (Hit (coordinate c) (cell_value c)),
              map (\<lambda>(t, c). coordinate c)
                  (takeWhile (\<lambda>(t, c). \<not> equal_hit L t (cell_value c))
                     (scan_order sheet search_targets))
              @ [coordinate c])"
    (is "_ = ?rhs")
proof -
  let ?H = "\<lambda>(t, c). equal_hit L t (cell_value c)"
  let ?NH = "\<lambda>(t, c). \<not> equal_hit L t (cell_value c)"
  let ?P = "\<lambda>(t, c). scan_stop L t c"
  let ?NP = "\<lambda>(t, c). \<not> scan_stop L t c"
  let ?xs = "List.product search_targets (concat sheet)"
  have hit': "find ?H ?xs = Some (target, c)" using hit by (simp add: scan_order_def)
  have quiet': "list_all (\<lambda>(t, c). \<not> raises_at t (cell_value c)) (takeWhile ?NH ?xs)"
    using quiet by (simp add: scan_order_def)
  have first: "find ?P ?xs = Some (target, c) \<and> takeWhile ?NP ?xs = takeWhile ?NH ?xs"
    by (rule first_hit_unraised[where R = "\<lambda>(t, c). compare_raises t (cell_value c)"
          and H = ?H and NR = "\<lambda>(t, c). \<not> raises_at t (cell_value c)", OF _ _ _ _ hit' quiet'])
       (auto simp: scan_stop_def raises_at_def)
  then have fP: "find ?P ?xs = Some (target, c)"
    and tw: "takeWhile ?NP ?xs = takeWhile ?NH ?xs" by simp_all
  from find_Some_mem[OF hit'] have mem: "(target, c) \<in> set ?xs"
    and eq: "equal_hit L target (cell_value c)" by simp_all
  from mem have tin: "target \<in> set search_targets" by auto
  then obtain t0 ts where ts: "search_targets = t0 # ts" by (cases search_targets) auto
  have inst: "isinstance t (type_of t0)" if "t \<in> set search_targets" for t
    using homog that by (auto simp: same_type_as_first_def ts list_all_iff)
  have scanned: "t' \<in> set search_targets \<and> \<not> target_raises t'"
    if "(t', c') \<in> set (takeWhile ?NP ?xs) \<or> t' = target" for t' c'
    using that
  proof
    assume a: "(t', c') \<in> set (takeWhile ?NP ?xs)"
    then have "(t', c') \<in> set ?xs" by (rule set_takeWhileD[THEN conjunct1])
    then have 1: "t' \<in> set search_targets" by auto
    from a quiet' have "\<not> raises_at t' (cell_value c')"
      unfolding tw by (auto simp: list_all_iff)
    with 1 show ?thesis by (simp add: raises_at_def)
  next
    assume "t' = target"
    with tin equal_hit_unraised[OF eq] show ?thesis by simp
  qed
  have out: "scan_out target c = Return (coordinate c) (cell_value c)"
    using equal_hit_unraised[OF eq] by (simp add: scan_out_def)
  have gen: "finish shape (for_targets per search_targets scan0) = ?rhs"
    if "\<And>t' c'. (t', c') \<in> set (takeWhile ?NP ?xs) \<or> t' = target
          \<Longrightarrow> (\<forall>s. per t' s = for_rows (body t') sheet s)
              \<and> stop_body (scan_stop L t') (scan_out t') (body t')"
    for per body shape
  proof -
    from for_targets_stop[where P = "scan_stop L" and out = scan_out and ts = search_targets
        and sheet = sheet and t = target and c = c and per_target = per and body = body
        and s = scan0, OF fP that]
    have "fst (for_targets per search_targets scan0) = scan_out target c"
      and "reads (snd (for_targets per search_targets scan0))
            = reads scan0 @ map (\<lambda>(t, c). coordinate c) (takeWhile ?NP ?xs) @ [coordinate c]"
      by simp_all
    then show ?thesis
      unfolding tw out by (simp add: finish_Return scan0_def scan_order_def)
  qed
  have kinds: "type_of t0 = TyStr \<or> is_Number t0 \<or> type_of t0 = TyDate
                 \<or> type_of t0 = TyDateTime \<or> type_of t0 = TyTime"
    using eq inst[OF tin]
    by (cases t0; cases target) (auto simp: equal_hit_def isinstance_def split: if_splits)
  have homog': "list_all (\<lambda>target_i. isinstance target_i (type_of t0)) search_targets"
    using homog by (simp add: same_type_as_first_def ts)
  consider (str) "type_of t0 = TyStr"
    | (num) "type_of t0 \<noteq> TyStr" "is_Number t0"
    | (date) "type_of t0 \<noteq> TyStr" "\<not> is_Number t0" "type_of t0 = TyDate \<or> type_of t0 = TyDateTime"
    | (time) "type_of t0 \<noteq> TyStr" "\<not> is_Number t0"
        "\<not> (type_of t0 = TyDate \<or> type_of t0 = TyDateTime)" "type_of t0 = TyTime"
    using kinds by blast
  then show ?thesis
  proof cases
    case str
    have ty: "type_of t = TyStr" if "t \<in> set search_targets" for t
      using inst[OF that] str by (simp add: isinstance_def)
    have "search_excl_val L sheet search_targets threshold True return_all_vals
            = finish (\<lambda>s. if return_all_vals then Dict (all_vals s)
                           else if Coordinate (equal_targets s) \<noteq> [] then Dict (equal_targets s)
                           else NonePair)
                (for_targets (\<lambda>search_val_i. for_rows (str_body L threshold True search_val_i) sheet)
                   search_targets scan0)"
      using homog' str by (simp add: search_excl_val_def ts)
    also have "\<dots> = ?rhs"
    proof (rule gen[of _ "str_body L threshold True"])
      fix t' c'
      assume "(t', c') \<in> set (takeWhile ?NP ?xs) \<or> t' = target"
      from scanned[OF this] have "type_of t' = TyStr" by (simp add: ty)
      then show "(\<forall>s. for_rows (str_body L threshold True t') sheet s
                        = for_rows (str_body L threshold True t') sheet s)
                 \<and> stop_body (scan_stop L t') (scan_out t') (str_body L threshold True t')"
        by (simp add: str_body_stop)
    qed
    finally show ?thesis .
  next
    case num
    have ty: "is_Number t" if "t \<in> set search_targets" for t
      using inst[OF that] num by (cases t0; cases t) (auto simp: isinstance_def)
    let ?body = "\<lambda>t. num_body L True
              (case count_significant_digits (PStr (py_str t)) of Inl _ \<Rightarrow> 0 | Inr d \<Rightarrow> d) t"
    have "search_excl_val L sheet search_targets threshold True return_all_vals
            = finish (\<lambda>s. if return_all_vals then Dict (all_vals s)
                           else if Value (equal_targets s) \<noteq> []
                           then CoordList (Coordinate (equal_targets s))
                           else NonePair)
                (for_targets (num_target L True sheet) search_targets scan0)"
      using homog' num by (simp add: search_excl_val_def ts)
    also have "\<dots> = ?rhs"
    proof (rule gen[of _ ?body])
      fix t' c'
      assume "(t', c') \<in> set (takeWhile ?NP ?xs) \<or> t' = target"
      from scanned[OF this] have n: "is_Number t'" and q: "\<not> target_raises t'"
        by (simp_all add: ty)
      show "(\<forall>s. num_target L True sheet t' s = for_rows (?body t') sheet s)
                 \<and> stop_body (scan_stop L t') (scan_out t') (?body t')"
        using num_target_rows[OF n q] num_body_stop[OF n q] by simp
    qed
    finally show ?thesis .
  next
    case date
    have ty: "type_of t = TyDate \<or> type_of t = TyDateTime" if "t \<in> set search_targets" for t
      using inst[OF that] date by (auto simp: isinstance_def)
    have "search_excl_val L sheet search_targets threshold True return_all_vals
            = finish (\<lambda>s. if return_all_vals then Dict (all_vals s)
                           else if Value (equal_targets s) \<noteq> [] then Dict (equal_targets s)
                           else NonePair)
                (for_targets (\<lambda>search_val_i. for_rows (date_body True search_val_i) sheet)
                   search_targets scan0)"
      using homog' date by (simp add: search_excl_val_def ts)
    also have "\<dots> = ?rhs"
    proof (rule gen[of _ "date_body True"])
      fix t' c'
      assume "(t', c') \<in> set (takeWhile ?NP ?xs) \<or> t' = target"
      from scanned[OF this] have "type_of t' = TyDate \<or> type_of t' = TyDateTime"
        using ty by blast
      then show "(\<forall>s. for_rows (date_body True t') sheet s = for_rows (date_body True t') sheet s)
                 \<and> stop_body (scan_stop L t') (scan_out t') (date_body True t')"
        by (simp add: date_body_stop)
    qed
    finally show ?thesis .
  next
    case time
    have ty: "type_of t = TyTime" if "t \<in> set search_targets" for t
      using inst[OF that] time by (auto simp: isinstance_def)
    have "search_excl_val L sheet search_targets threshold True return_all_vals
            = finish (\<lambda>s. if Value (equal_targets s) \<noteq> [] \<and> \<not> return_all_vals
                           then Dict (equal_targets s)
                           else if return_all_vals then Dict (all_vals s)
                           else NoneResult)
                (for_targets (\<lambda>search_val_i. for_rows (time_body True search_val_i) sheet)
                   search_targets scan0)"
      using homog' time by (simp add: search_excl_val_def ts)
    also have "\<dots> = ?rhs"
    proof (rule gen[of _ "time_body True"])
      fix t' c'
      assume "(t', c') \<in> set (takeWhile ?NP ?xs) \<or> t' = target"
      from scanned[OF this] have "type_of t' = TyTime" by (simp add: ty)
      then show "(\<forall>s. for_rows (time_body True t') sheet s = for_rows (time_body True t') sheet s)
                 \<and> stop_body (scan_stop L t') (scan_out t') (time_body True t')"
        by (simp add: time_body_stop)
    qed
    finally show ?thesis .
  qed
qed

theorem search_excl_val_first_hit_witness:
  "same_type_as_first [PStr ''Total'']
   \<and> find (\<lambda>(t, c). equal_hit stdlib t (cell_value c)) (scan_order demo_sheet [PStr ''Total''])
       = Some (PStr ''Total'', \<lparr>coordinate = ''A2'', cell_value = PStr ''Total''\<rparr>)
   \<and> list_all (\<lambda>(t, c). \<not> raises_at t (cell_value c))
        (takeWhile (\<lambda>(t, c). \<not> equal_hit stdlib t (cell_value c))
           (scan_order demo_sheet [PStr ''Total'']))
   \<and> search_excl_val stdlib demo_sheet [PStr ''Total''] (4 / 5) True False
       = (Inr (Hit ''A2'' (PStr ''Total'')), [''A1'', ''B1'', ''A2''])
   \<and> same_type_as_first [PFloat 1 0, PFloat 314 (- 2)]
   \<and> find (\<lambda>(t, c). equal_hit stdlib t (cell_value c))
        (scan_order demo_sheet [PFloat 1 0, PFloat 314 (- 2)])
       = Some (PFloat 314 (- 2), \<lparr>coordinate = ''B2'', cell_value = PFloat 314 (- 2)\<rparr>)
   \<and> list_all (\<lambda>(t, c). \<not> raises_at t (cell_value c))
        (takeWhile (\<lambda>(t, c). \<not> equal_hit stdlib t (cell_value c))
           (scan_order demo_sheet [PFloat 1 0, PFloat 314 (- 2)]))
   \<and> search_excl_val stdlib demo_sheet [PFloat 1 0, PFloat 314 (- 2)] (4 / 5) True False
       = (Inr (Hit ''B2'' (PFloat 314 (- 2))),
          [''A1'', ''B1'', ''A2'', ''B2'', ''A3'', ''B3'', ''A1'', ''B1'', ''A2'', ''B2''])"
proof -
  have h1: "same_type_as_first [PStr ''Total'']"
    by (simp add: same_type_as_first_def isinstance_def)
  have f1: "find (\<lambda>(t, c). equal_hit stdlib t (cell_value c)) (scan_order demo_sheet [PStr ''Total''])
       = Some (PStr ''Total'', \<lparr>coordinate = ''A2'', cell_value = PStr ''Total''\<rparr>)"
    by (simp add: scan_order_def demo_sheet_def equal_hit_def)
  have q1: "list_all (\<lambda>(t, c). \<not> raises_at t (cell_value c))
        (takeWhile (\<lambda>(t, c). \<not> equal_hit stdlib t (cell_value c))
           (scan_order demo_sheet [PStr ''Total'']))"
    by (simp add: scan_order_def demo_sheet_def equal_hit_def raises_at_def target_raises_def
        compare_raises_def)
  have h2: "same_type_as_first [PFloat 1 0, PFloat 314 (- 2)]"
    by (simp add: same_type_as_first_def isinstance_def)
  have f2: "find (\<lambda>(t, c). equal_hit stdlib t (cell_value c))
        (scan_order demo_sheet [PFloat 1 0, PFloat 314 (- 2)])
       = Some (PFloat 314 (- 2), \<lparr>coordinate = ''B2'', cell_value = PFloat 314 (- 2)\<rparr>)"
    by code_simp
  have q2: "list_all (\<lambda>(t, c). \<not> raises_at t (cell_value c))
        (takeWhile (\<lambda>(t, c). \<not> equal_hit stdlib t (cell_value c))
           (scan_order demo_sheet [PFloat 1 0, PFloat 314 (- 2)]))"
    by code_simp
  have t2: "map (\<lambda>(t, c). coordinate c)
              (takeWhile (\<lambda>(t, c). \<not> equal_hit stdlib t (cell_value c))
                 (scan_order demo_sheet [PFloat 1 0, PFloat 314 (- 2)]))
            = [''A1'', ''B1'', ''A2'', ''B2'', ''A3'', ''B3'', ''A1'', ''B1'', ''A2'']"
    by code_simp
  from search_excl_val_first_hit[OF h1 f1 q1, of "4 / 5" False]
  have r1: "search_excl_val stdlib demo_sheet [PStr ''Total''] (4 / 5) True False
       = (Inr (Hit ''A2'' (PStr ''Total'')), [''A1'', ''B1'', ''A2''])"
    by (simp add: scan_order_def demo_sheet_def equal_hit_def)
  from search_excl_val_first_hit[OF h2 f2 q2, of "4 / 5" False]
  have r2: "search_excl_val stdlib demo_sheet [PFloat 1 0, PFloat 314 (- 2)] (4 / 5) True False
       = (Inr (Hit ''B2'' (PFloat 314 (- 2))),
          [''A1'', ''B1'', ''A2'', ''B2'', ''A3'', ''B3'', ''A1'', ''B1'', ''A2'', ''B2''])"
    by (simp add: t2)
  from h1 f1 q1 r1 h2 f2 q2 r2 show ?thesis by blast
qed

text \<open>
  C3 as written has the first equal cell returned for every homogeneous target set. The
  targets \<open>[1, 1.5]\<close> are all numbers and the cell A1 holds 1, yet the search raises
  TypeError before it reads a cell; and for the target 1, with A1 holding \<open>2 ** 64\<close>
  and B1 holding 1, rounding A1 raises TypeError before B1 is read.
\<close>

theorem search_excl_val_first_hit_counterexample:
  "equal_hit stdlib (PInt 1) (PInt 1)
   \<and> search_excl_val stdlib [[\<lparr>coordinate = ''A1'', cell_value = PInt 1\<rparr>]]
        [PInt 1, PFloat 15 (- 1)] (4 / 5) True False
       = (Inl TypeError, [])
   \<and> search_excl_val stdlib
        [[\<lparr>coordinate = ''A1'', cell_value = PInt 18446744073709551616\<rparr>,
          \<lparr>coordinate = ''B1'', cell_value = PInt 1\<rparr>]]
        [PInt 1] (4 / 5) True False
       = (Inl TypeError, [''A1''])"
proof -
  have a: "equal_hit stdlib (PInt 1) (PInt 1)"
    by (simp add: equal_hit_def int_str_1 count_significant_digits_1 np_round_raises_def
        str_raises_1)
  have b: "search_excl_val stdlib [[\<lparr>coordinate = ''A1'', cell_value = PInt 1\<rparr>]]
        [PInt 1, PFloat 15 (- 1)] (4 / 5) True False
       = (Inl TypeError, [])"
    by (simp add: search_excl_val_def isinstance_def)
  have c: "search_excl_val stdlib
        [[\<lparr>coordinate = ''A1'', cell_value = PInt 18446744073709551616\<rparr>,
          \<lparr>coordinate = ''B1'', cell_value = PInt 1\<rparr>]]
        [PInt 1] (4 / 5) True False
       = (Inl TypeError, [''A1''])"
    by (simp add: search_excl_val_def isinstance_def num_target_def num_body_def finish_def
        scan0_def int_str_1 count_significant_digits_1 np_round_raises_def str_raises_1)
  from a b c show ?thesis by blast
qed

text \<open>The three loops with \<open>return_first_hit\<close> off gather the equal hits of the scan order.\<close>

lemma bucket_append_Nil [simp]: "bucket_append b [] = b"
  by (simp add: bucket_append_def)

lemma bucket_append_append [simp]:
  "bucket_append (bucket_append b xs) ys = bucket_append b (xs @ ys)"
  by (simp add: bucket_append_def)

lemma for_cells_collect:
  assumes "collect_body ok hit body"
  shows "list_all ok cs \<Longrightarrow>
         fst (for_cells body cs s) = Continue
         \<and> reads (snd (for_cells body cs s)) = reads s @ map coordinate cs
         \<and> equal_targets (snd (for_cells body cs s))
             = bucket_append (equal_targets s) (filter hit cs)"
proof (induction cs arbitrary: s)
  case Nil
  show ?case by simp
next
  case (Cons c cs)
  let ?s1 = "s\<lparr>reads := reads s @ [coordinate c]\<rparr>"
  obtain f s' where b: "body c ?s1 = (f, s')" by (cases "body c ?s1")
  from Cons.prems have okc: "ok c" and okcs: "list_all ok cs" by simp_all
  from assms okc have "fst (body c ?s1) = Continue" "reads (snd (body c ?s1)) = reads ?s1"
    "equal_targets (snd (body c ?s1))
       = bucket_append (equal_targets ?s1) (if hit c then [c] else [])"
    unfolding collect_body_def by blast+
  with b have f: "f = Continue" and r: "reads s' = reads s @ [coordinate c]"
    and e: "equal_targets s' = bucket_append (equal_targets s) (if hit c then [c] else [])"
    by simp_all
  have whole: "for_cells body (c # cs) s = for_cells body cs s'" by (simp add: b f)
  show ?case unfolding whole using Cons.IH[OF okcs, of s'] r e by simp
qed

lemma for_rows_collect:
  assumes "collect_body ok hit body"
  shows "list_all ok (concat rows) \<Longrightarrow>
         fst (for_rows body rows s) = Continue
         \<and> reads (snd (for_rows body rows s)) = reads s @ map coordinate (concat rows)
         \<and> equal_targets (snd (for_rows body rows s))
             = bucket_append (equal_targets s) (filter hit (concat rows))"
proof (induction rows arbitrary: s)
  case Nil
  show ?case by simp
next
  case (Cons row rows)
  obtain f s' where b: "for_cells body row s = (f, s')" by (cases "for_cells body row s")
  from Cons.prems have okr: "list_all ok row" and okrs: "list_all ok (concat rows)"
    by simp_all
  from for_cells_collect[OF assms okr, of s] b
  have f: "f = Continue" and r: "reads s' = reads s @ map coordinate row"
    and e: "equal_targets s' = bucket_append (equal_targets s) (filter hit row)"
    by simp_all
  have whole: "for_rows body (row # rows) s = for_rows body rows s'" by (simp add: b f)
  show ?case unfolding whole using Cons.IH[OF okrs, of s'] r e by simp
qed

lemma filter_map_Pair:
  "map snd (filter (\<lambda>(t, c). H t c) (map (Pair t) cs)) = filter (H t) cs"
  by (induction cs) auto

lemma for_targets_collect:
  assumes per: "\<And>t s. t \<in> set ts \<Longrightarrow> per_target t s = for_rows (body t) sheet s"
    and body: "\<And>t. t \<in> set ts \<Longrightarrow> collect_body (OK t) (H t) (body t)"
    and ok: "\<And>t. t \<in> set ts \<Longrightarrow> list_all (OK t) (concat sheet)"
  shows "fst (for_targets per_target ts s) = Continue
         \<and> reads (snd (for_targets per_target ts s))
             = reads s @ map (\<lambda>(t, c). coordinate c) (List.product ts (concat sheet))
         \<and> equal_targets (snd (for_targets per_target ts s))
             = bucket_append (equal_targets s)
                 (map snd (filter (\<lambda>(t, c). H t c) (List.product ts (concat sheet))))"
  using assms
proof (induction ts arbitrary: s)
  case Nil
  show ?case by simp
next
  case (Cons t ts)
  let ?cs = "concat sheet"
  obtain f s' where b: "per_target t s = (f, s')" by (cases "per_target t s")
  have "per_target t s = for_rows (body t) sheet s" using Cons.prems(1) by simp
  with for_rows_collect[OF Cons.prems(2)[of t] Cons.prems(3)[of t], of s] b
  have f: "f = Continue" and r: "reads s' = reads s @ map coordinate ?cs"
    and e: "equal_targets s' = bucket_append (equal_targets s) (filter (H t) ?cs)"
    by simp_all
  have whole: "for_targets per_target (t # ts) s = for_targets per_target ts s'"
    by (simp add: b f)
  have IH: "fst (for_targets per_target ts s') = Continue
         \<and> reads (snd (for_targets per_target ts s'))
             = reads s' @ map (\<lambda>(t, c). coordinate c) (List.product ts ?cs)
         \<and> equal_targets (snd (for_targets per_target ts s'))
             = bucket_append (equal_targets s')
                 (map snd (filter (\<lambda>(t, c). H t c) (List.product ts ?cs)))"
    using Cons.IH[of s'] Cons.prems by simp
  show ?case unfolding whole using IH r e by (simp add: filter_map_Pair comp_def)
qed


lemma equal_targets_add [simp]:
  "equal_targets (add_equal c s) = bucket_append (equal_targets s) [c]"
  "equal_targets (add_similar c s) = equal_targets s"
  by (simp_all add: add_equal_def add_similar_def bucket_append_def)

lemma str_body_collect:
  assumes "type_of t = TyStr"
  shows "collect_body (\<lambda>c. \<not> compare_raises t (cell_value c))
           (\<lambda>c. equal_hit L t (cell_value c)) (str_body L threshold False t)"
proof -
  from assms obtain x where t: "t = PStr x" by (cases t) auto
  have hit: "equal_hit L t v \<longleftrightarrow> v = t" for v by (simp add: equal_hit_def t)
  have "fst (str_body L threshold False t c s) = Continue
      \<and> reads (snd (str_body L threshold False t c s)) = reads s
      \<and> equal_targets (snd (str_body L threshold False t c s))
          = bucket_append (equal_targets s) (if cell_value c = t then [c] else [])" for c s
  proof -
    have "\<not> str_raises t" by (simp add: t)
    from is_similar_single_str[OF this]
    obtain b where "is_similar (ratio L) t (Single (PStr (py_str (cell_value c)))) threshold False
        = Inr (SimBool b)"
      by blast
    then show ?thesis by (auto simp: str_body_def Let_def t isinstance_def)
  qed
  then show ?thesis unfolding collect_body_def hit by blast
qed

lemma num_body_collect:
  assumes "is_Number t" "\<not> target_raises t"
  shows "collect_body (\<lambda>c. \<not> compare_raises t (cell_value c))
           (\<lambda>c. equal_hit L t (cell_value c))
           (num_body L False
              (case count_significant_digits (PStr (py_str t)) of Inl _ \<Rightarrow> 0 | Inr d \<Rightarrow> d) t)"
proof -
  from assms obtain d where d: "count_significant_digits (PStr (py_str t)) = Inr d"
    and sr: "\<not> str_raises t"
    by (cases "count_significant_digits (PStr (py_str t))") (auto simp: target_raises_def)
  show ?thesis
    using assms(1) sr
    by (auto simp: collect_body_def equal_hit_def compare_raises_def num_body_def Let_def d)
qed

lemma date_body_collect:
  assumes "type_of t = TyDate \<or> type_of t = TyDateTime"
  shows "collect_body (\<lambda>c. \<not> compare_raises t (cell_value c))
           (\<lambda>c. equal_hit L t (cell_value c)) (date_body False t)"
proof -
  have n: "\<not> is_Number t" using assms by (cases t) auto
  have hit: "equal_hit L t v \<longleftrightarrow> v = t" for v using assms n by (auto simp: equal_hit_def)
  show ?thesis unfolding collect_body_def hit
    using assms by (auto simp: date_body_def Let_def isinstance_def)
qed

lemma time_body_collect:
  assumes "type_of t = TyTime"
  shows "collect_body (\<lambda>c. \<not> compare_raises t (cell_value c))
           (\<lambda>c. equal_hit L t (cell_value c)) (time_body False t)"
proof -
  have n: "\<not> is_Number t" using assms by (cases t) auto
  have hit: "equal_hit L t v \<longleftrightarrow> v = t" for v using assms n by (auto simp: equal_hit_def)
  show ?thesis unfolding collect_body_def hit
    using assms by (auto simp: time_body_def Let_def isinstance_def)
qed

lemma finish_Continue:
  "fst r = Continue \<Longrightarrow> finish shape r = (Inr (shape (snd r)), reads (snd r))"
  by (cases r) (simp add: finish_def)

text \<open>
  With both flags off, where nothing raises, the whole sheet is read once per target, and
  the result depends on the equal hits alone. With hits, the string, date and time branches
  return the dict that pairs their coordinates and values, and the number branch returns
  the coordinates only; without hits, the string, number and date branches return
  \<open>(None, None)\<close> and the time branch returns \<open>None\<close>.
\<close>

lemma search_excl_val_flags_off:
  assumes homog: "same_type_as_first (t0 # ts)"
    and kind: "type_of t0 = TyStr \<or> is_Number t0 \<or> type_of t0 = TyDate
                 \<or> type_of t0 = TyDateTime \<or> type_of t0 = TyTime"
    and quiet_targets: "list_all (\<lambda>t. \<not> target_raises t) (t0 # ts)"
    and quiet_cells: "list_all (\<lambda>(t, c). \<not> compare_raises t (cell_value c))
                        (scan_order sheet (t0 # ts))"
  shows "search_excl_val L sheet (t0 # ts) threshold False False =
           (Inr (if equal_hits L sheet (t0 # ts) = []
                 then (if type_of t0 = TyTime then NoneResult else NonePair)
                 else (if is_Number t0 then CoordList (map coordinate (equal_hits L sheet (t0 # ts)))
                       else Dict (bucket_of (equal_hits L sheet (t0 # ts))))),
            map (\<lambda>(t, c). coordinate c) (scan_order sheet (t0 # ts)))"
    (is "_ = ?rhs")
proof -
  let ?tg = "t0 # ts"
  let ?H = "\<lambda>t c. equal_hit L t (cell_value c)"
  let ?OK = "\<lambda>t c. \<not> compare_raises t (cell_value c)"
  let ?hits = "equal_hits L sheet ?tg"
  have ok: "list_all (?OK t) (concat sheet)" if "t \<in> set ?tg" for t
    using quiet_cells that unfolding scan_order_def list_all_iff by fastforce
  have qt: "\<not> target_raises t" if "t \<in> set ?tg" for t
    using quiet_targets that unfolding list_all_iff by blast
  have inst: "isinstance t (type_of t0)" if "t \<in> set ?tg" for t
    using homog that by (auto simp: same_type_as_first_def list_all_iff)
  have homog': "list_all (\<lambda>target_i. isinstance target_i (type_of t0)) ?tg"
    using homog by (simp add: same_type_as_first_def)
  have gen: "finish shape (for_targets per ?tg scan0)
               = (Inr (shape' ?hits), map (\<lambda>(t, c). coordinate c) (scan_order sheet ?tg))"
    if "\<And>t s. t \<in> set ?tg \<Longrightarrow> per t s = for_rows (body t) sheet s"
      and "\<And>t. t \<in> set ?tg \<Longrightarrow> collect_body (?OK t) (?H t) (body t)"
      and "\<And>s. equal_targets s = bucket_of ?hits \<Longrightarrow> shape s = shape' ?hits"
    for per body shape shape'
  proof -
    from for_targets_collect[where ts = ?tg and per_target = per and body = body
        and sheet = sheet and OK = ?OK and H = ?H and s = scan0, OF that(1,2) ok]
    have 1: "fst (for_targets per ?tg scan0) = Continue"
      and 2: "reads (snd (for_targets per ?tg scan0))
               = map (\<lambda>(t, c). coordinate c) (scan_order sheet ?tg)"
      and 3: "equal_targets (snd (for_targets per ?tg scan0)) = bucket_of ?hits"
      by (simp_all add: scan_order_def scan0_def equal_hits_def bucket_append_def bucket_of_def)
    show ?thesis unfolding finish_Continue[OF 1] 2 using that(3)[OF 3] by simp
  qed
  have ne: "Coordinate (bucket_of cs) \<noteq> [] \<longleftrightarrow> cs \<noteq> []"
    "Value (bucket_of cs) \<noteq> [] \<longleftrightarrow> cs \<noteq> []" for cs
    by (simp_all add: bucket_of_def)
  have co: "Coordinate (bucket_of cs) = map coordinate cs" for cs
    by (simp add: bucket_of_def)
  consider (str) "type_of t0 = TyStr"
    | (num) "type_of t0 \<noteq> TyStr" "is_Number t0"
    | (date) "type_of t0 \<noteq> TyStr" "\<not> is_Number t0" "type_of t0 = TyDate \<or> type_of t0 = TyDateTime"
    | (time) "type_of t0 \<noteq> TyStr" "\<not> is_Number t0"
        "\<not> (type_of t0 = TyDate \<or> type_of t0 = TyDateTime)" "type_of t0 = TyTime"
    using kind by blast
  then show ?thesis
  proof cases
    case str
    have ty: "type_of t = TyStr" if "t \<in> set ?tg" for t
      using inst[OF that] str by (simp add: isinstance_def)
    have nn: "\<not> is_Number t0" using str by (cases t0) auto
    have "search_excl_val L sheet ?tg threshold False False
            = finish (\<lambda>s. if Coordinate (equal_targets s) \<noteq> [] then Dict (equal_targets s)
                           else NonePair)
                (for_targets (\<lambda>search_val_i. for_rows (str_body L threshold False search_val_i) sheet)
                   ?tg scan0)"
      using homog' str by (simp add: search_excl_val_def)
    also have "\<dots> = (Inr (if ?hits \<noteq> [] then Dict (bucket_of ?hits) else NonePair),
                      map (\<lambda>(t, c). coordinate c) (scan_order sheet ?tg))"
      by (rule gen[of _ "str_body L threshold False"]) (simp_all add: str_body_collect ty ne)
    finally show ?thesis using str nn by simp
  next
    case num
    have ty: "is_Number t" if "t \<in> set ?tg" for t
      using inst[OF that] num by (cases t0; cases t) (auto simp: isinstance_def)
    have nt: "type_of t0 \<noteq> TyTime" using num by (cases t0) auto
    have "search_excl_val L sheet ?tg threshold False False
            = finish (\<lambda>s. if Value (equal_targets s) \<noteq> []
                           then CoordList (Coordinate (equal_targets s))
                           else NonePair)
                (for_targets (num_target L False sheet) ?tg scan0)"
      using homog' num by (simp add: search_excl_val_def)
    also have "\<dots> = (Inr (if ?hits \<noteq> [] then CoordList (map coordinate ?hits) else NonePair),
                      map (\<lambda>(t, c). coordinate c) (scan_order sheet ?tg))"
      by (rule gen[of _ "\<lambda>t. num_body L False
              (case count_significant_digits (PStr (py_str t)) of Inl _ \<Rightarrow> 0 | Inr d \<Rightarrow> d) t"])
         (simp_all add: num_target_rows num_body_collect ty qt ne co)
    finally show ?thesis using num nt by simp
  next
    case date
    have ty: "type_of t = TyDate \<or> type_of t = TyDateTime" if "t \<in> set ?tg" for t
      using inst[OF that] date by (auto simp: isinstance_def)
    have nt: "type_of t0 \<noteq> TyTime" using date by auto
    have "search_excl_val L sheet ?tg threshold False False
            = finish (\<lambda>s. if Value (equal_targets s) \<noteq> [] then Dict (equal_targets s)
                           else NonePair)
                (for_targets (\<lambda>search_val_i. for_rows (date_body False search_val_i) sheet)
                   ?tg scan0)"
      using homog' date by (simp add: search_excl_val_def)
    also have "\<dots> = (Inr (if ?hits \<noteq> [] then Dict (bucket_of ?hits) else NonePair),
                      map (\<lambda>(t, c). coordinate c) (scan_order sheet ?tg))"
      by (rule gen[of _ "date_body False"]) (simp_all add: date_body_collect ty ne)
    finally show ?thesis using date nt by simp
  next
    case time
    have ty: "type_of t = TyTime" if "t \<in> set ?tg" for t
      using inst[OF that] time by (auto simp: isinstance_def)
    have "search_excl_val L sheet ?tg threshold False False
            = finish (\<lambda>s. if Value (equal_targets s) \<noteq> [] then Dict (equal_targets s)
                           else NoneResult)
                (for_targets (\<lambda>search_val_i. for_rows (time_body False search_val_i) sheet)
                   ?tg scan0)"
      using homog' time by (simp add: search_excl_val_def cong: if_cong del: for_targets.simps)
    also have "\<dots> = (Inr (if ?hits \<noteq> [] then Dict (bucket_of ?hits) else NoneResult),
                      map (\<lambda>(t, c). coordinate c) (scan_order sheet ?tg))"
      by (rule gen[of _ "time_body False"]) (simp_all add: time_body_collect ty ne)
    finally show ?thesis using time by simp
  qed
qed

section \<open>Properties of get_excl_sheet_vals\<close>

lemma exc_coord_to_rc_A1: "exc_coord_to_rc ''A1'' = Inr (1, 1)"
  by code_simp

lemma exc_coord_to_rc_B2: "exc_coord_to_rc ''B2'' = Inr (2, 2)"
  by code_simp

text \<open>
  C7. From A1 to B2 the function returns one row, the values of A1 and B1, and not the
  2 by 2 array: the row loop is \<open>range(row_start, row_end)\<close> and leaves the last row out,
  while the column loop runs to \<open>col_end + 1\<close>. The corners in the other order give the
  same array.
\<close>

theorem get_excl_sheet_vals_A1_B2:
  "get_excl_sheet_vals sheet (CornerStr ''A1'') (CornerStr ''B2'')
     = Inr (Array2 [[sheet 1 1, sheet 1 2]])
   \<and> get_excl_sheet_vals sheet (CornerStr ''B2'') (CornerStr ''A1'')
     = Inr (Array2 [[sheet 1 1, sheet 1 2]])"
  by (simp add: get_excl_sheet_vals_def bind_corner_def exc_coord_to_rc_A1 exc_coord_to_rc_B2
      sheet_cell_def upto.simps)

lemma unassigned_pair_bind: "unassigned_pair co \<Longrightarrow> bind_corner co = Inr None"
  by (induction co rule: unassigned_pair.induct)
     (auto simp: bind_corner_def split: pyval.splits list.splits)

text \<open>
  C10. A corner that is a tuple of two elements, not both ints, raises nothing itself and
  leaves its row and column unassigned, so the call returns no result: with the other
  corner accepted it raises the unbound-local error when the variables are read. (A corner
  that is rejected on its own raises its error at its own check, which comes first.)
\<close>

theorem get_excl_sheet_vals_unassigned:
  "(unassigned_pair start_Cord \<longrightarrow>
      corner_error start_Cord = None
      \<and> get_excl_sheet_vals sheet start_Cord end_Cord
          = Inl (case corner_error end_Cord of Some e \<Rightarrow> e | None \<Rightarrow> UnboundLocalError))
   \<and> (unassigned_pair end_Cord \<longrightarrow>
      corner_error end_Cord = None
      \<and> get_excl_sheet_vals sheet start_Cord end_Cord
          = Inl (case corner_error start_Cord of Some e \<Rightarrow> e | None \<Rightarrow> UnboundLocalError))"
  by (auto simp: get_excl_sheet_vals_def corner_error_def dest!: unassigned_pair_bind
      split: sum.splits option.splits)

theorem get_excl_sheet_vals_unassigned_witness:
  "unassigned_pair (CornerTuple [PStr ''a'', PInt 2])
   \<and> get_excl_sheet_vals demo_grid (CornerTuple [PStr ''a'', PInt 2]) (CornerStr ''B2'')
       = Inl UnboundLocalError
   \<and> unassigned_pair (CornerTuple [PInt 1, PFloat 2 0])
   \<and> get_excl_sheet_vals demo_grid (CornerStr ''A1'') (CornerTuple [PInt 1, PFloat 2 0])
       = Inl UnboundLocalError
   \<and> unassigned_pair (CornerTuple [PFloat 1 0, PInt 2])
   \<and> get_excl_sheet_vals demo_grid (CornerTuple [PFloat 1 0, PInt 2]) (CornerTuple [PInt 2, PInt 2])
       = Inl UnboundLocalError"
  using get_excl_sheet_vals_unassigned [of "CornerTuple [PStr ''a'', PInt 2]" demo_grid "CornerStr ''B2''"]
    get_excl_sheet_vals_unassigned [of "CornerStr ''A1''" demo_grid "CornerTuple [PInt 1, PFloat 2 0]"]
    get_excl_sheet_vals_unassigned [of "CornerTuple [PFloat 1 0, PInt 2]" demo_grid
      "CornerTuple [PInt 2, PInt 2]"]
  by (simp add: corner_error_def bind_corner_def exc_coord_to_rc_A1 exc_coord_to_rc_B2)

end
